theory Spec2Isabelle
  imports Complex_Main "HOL-Library.AList"
begin

section \<open>Values, errors and the objects the job handler reads\<close>

text \<open>
  The treeherder job handler (the file with \<^verbatim>\<open>jobFromTask\<close> and \<^verbatim>\<open>class Handler\<close>) is
  embedded function by function. JavaScript values whose dynamic type matters to the code
  (the leaves of \<^verbatim>\<open>task.extra.treeherder\<close>) are values of \<open>jsval\<close>; \<open>JUndefined\<close> also
  stands for an absent property. Numbers are the finite ones, each with its exact value.
  Every \<^verbatim>\<open>throw\<close> and every runtime error of the source is a value of \<open>js_error\<close>,
  returned on the left of a sum.
\<close>

datatype jsval = JUndefined | JBool bool | JNum rat | JStr string

datatype js_error = Error string | TypeError string | ReferenceError string

text \<open>Truthiness, as tested by \<^verbatim>\<open>if (x)\<close>, \<^verbatim>\<open>!x\<close> and \<^verbatim>\<open>x && y\<close>.\<close>

fun truthy :: "jsval \<Rightarrow> bool" where
  "truthy JUndefined = False"
| "truthy (JBool b) = b"
| "truthy (JNum n) = (n \<noteq> 0)"
| "truthy (JStr s) = (s \<noteq> [])"

text \<open>
  One element of \<^verbatim>\<open>payload.status.runs\<close>. \<open>started\<close> and \<open>resolved\<close> hold the instant the
  date string denotes, in milliseconds since the epoch (what \<^verbatim>\<open>new Date(d).getTime()\<close>
  gives), and are \<open>None\<close> while the property is absent.
\<close>

record run =
  runId :: nat
  state :: string
  reasonCreated :: string
  reasonResolved :: "string option"
  workerId :: jsval
  started :: "int option"
  resolved :: "int option"

text \<open>An object with the keys of \<^verbatim>\<open>build\<close> and \<^verbatim>\<open>machine\<close>; an absent object has every key undefined.\<close>

record platform_info =
  platform :: jsval
  os :: jsval
  os_name :: jsval
  architecture :: jsval

text \<open>The object \<^verbatim>\<open>task.extra.treeherder\<close>, with the keys the schema knows.\<close>

record treeherder =
  build :: platform_info
  machine :: platform_info
  machineId :: jsval
  symbol :: jsval
  groupName :: jsval
  groupSymbol :: jsval
  tier :: jsval
  productName :: jsval
  collection :: "(string \<times> jsval) list option"
  revision_hash :: jsval
  revision :: jsval
  jobKind :: jsval

text \<open>
  The task definition: \<open>metadata_name\<close> is \<^verbatim>\<open>task.metadata.name\<close>, \<open>extra_treeherder\<close> is
  \<^verbatim>\<open>task.extra && task.extra.treeherder\<close>, \<open>created\<close> is in milliseconds since the epoch.
\<close>

record task =
  workerType :: string
  schedulerId :: string
  taskGroupId :: "string option"
  metadata_name :: string
  metadata_owner :: string
  created :: int
  extra_treeherder :: "treeherder option"

record job_detail =
  url :: string
  detail_value :: string
  content_type :: string
  title :: string

record artifact =
  artifact_type :: string
  artifact_name :: string
  blob_job_details :: "job_detail list"

record log_reference =
  log_name :: string
  log_url :: string

text \<open>
  The job object built by \<^verbatim>\<open>jobFromTask\<close>. A property that the source adds conditionally is
  an option. \<open>job_machine\<close>, \<open>job_tier\<close> and \<open>job_state\<close> are the properties \<^verbatim>\<open>machine\<close>,
  \<^verbatim>\<open>tier\<close> and \<^verbatim>\<open>state\<close>; the last three fields are the ones the event handlers add with
  \<^verbatim>\<open>Object.assign\<close>.
\<close>

record job =
  job_guid :: string
  build_system_type :: string
  build_platform :: platform_info
  machine_platform :: platform_info
  job_machine :: jsval
  name :: string
  reason :: string
  job_symbol :: jsval
  submit_timestamp :: int
  start_timestamp :: "int option"
  end_timestamp :: "int option"
  who :: string
  option_collection :: "(string \<times> jsval) list"
  group_name :: "jsval option"
  group_symbol :: "jsval option"
  product_name :: "jsval option"
  job_tier :: "jsval option"
  artifacts :: "artifact list"
  job_state :: "string option"
  result :: "string option"
  log_references :: "log_reference list option"


section \<open>Numbers as strings, and the functions of libraries\<close>

text \<open>
  The decimal digits of an integer, with a minus sign when negative. The interpolation
  \<^verbatim>\<open>${run.runId}\<close> writes them for the index of a run, which counts the runs of one task
  and stays far below \<open>10\<^sup>2\<^sup>1\<close>, from where on JavaScript writes an exponent.
\<close>

definition digit_char :: "nat \<Rightarrow> char" where
  "digit_char d = char_of (48 + d)"

fun show_nat :: "nat \<Rightarrow> string" where
  "show_nat n = (if n < 10 then [digit_char n] else show_nat (n div 10) @ [digit_char (n mod 10)])"

declare show_nat.simps [simp del]

definition show_int :: "int \<Rightarrow> string" where
  "show_int i = (if i < 0 then CHR ''-'' # show_nat (nat (- i)) else show_nat (nat i))"

text \<open>
  What the handler takes from libraries and from the language without the repository
  holding their code: \<^verbatim>\<open>slugid.decode\<close>; the string that \<^verbatim>\<open>String(n)\<close> writes for a number
  that is not an integer of magnitude below \<open>10\<^sup>2\<^sup>1\<close> (a fraction, or the exponent notation
  from \<open>10\<^sup>2\<^sup>1\<close> on); the number and the boolean that Joi reads out of a string when the
  schema asks for a number or a boolean (\<open>None\<close>: Joi leaves the string as it is).
\<close>

record library =
  slugid_decode :: "string \<Rightarrow> string"
  String_other :: "rat \<Rightarrow> string"
  joi_to_number :: "string \<Rightarrow> rat option"
  joi_to_boolean :: "string \<Rightarrow> bool option"

text \<open>
  \<^verbatim>\<open>String(n)\<close> of a number: the decimal digits of an integer of magnitude below \<open>10\<^sup>2\<^sup>1\<close>,
  what the language writes otherwise.
\<close>

definition String_number :: "library \<Rightarrow> rat \<Rightarrow> string" where
  "String_number L q =
     (if of_int \<lfloor>q\<rfloor> = q \<and> \<bar>q\<bar> < 10 ^ 21 then show_int \<lfloor>q\<rfloor> else String_other L q)"


section \<open>State and result of a run\<close>

definition stateFromRun :: "run \<Rightarrow> string" where
  "stateFromRun r =
     (if state r = ''exception'' then ''completed''
      else if state r = ''failed'' then ''completed''
      else state r)"

definition resultFromRun :: "run \<Rightarrow> string" where
  "resultFromRun r =
     (if state r = ''completed'' then ''success''
      else if state r = ''failed'' then ''testfailed''
      else if state r = ''exception'' then
        (if reasonResolved r = Some ''canceled'' then ''usercancel'' else ''exception'')
      else ''unknown'')"


section \<open>The schema of \<^verbatim>\<open>task.extra.treeherder\<close>\<close>

text \<open>
  Joi is a library outside the repository; the rules the schema is built from are modelled
  after its documented behaviour. A rule names the type of the value, whether the key is
  required, the default put in place of an undefined value, and the values allowed beside
  the type. A string rule refuses the empty string unless it is allowed explicitly. Joi
  converts before it tests the type (\<^verbatim>\<open>convert\<close> is on by default): where the rule asks for
  a number or a boolean and the value is a string, the value becomes what Joi reads out of
  the string. The record type \<open>treeherder\<close> has the keys of the schema only, so that the
  refusal of unknown keys has nothing to refuse.
\<close>

datatype joi_type = JoiString | JoiNumber | JoiBoolean

record joi_rule =
  rule_type :: joi_type
  rule_required :: bool
  rule_default :: jsval
  rule_allow :: "jsval list"

definition Joi_string :: joi_rule where
  "Joi_string = \<lparr>rule_type = JoiString, rule_required = False, rule_default = JUndefined, rule_allow = []\<rparr>"

definition Joi_number :: joi_rule where
  "Joi_number = \<lparr>rule_type = JoiNumber, rule_required = False, rule_default = JUndefined, rule_allow = []\<rparr>"

definition Joi_boolean :: joi_rule where
  "Joi_boolean = \<lparr>rule_type = JoiBoolean, rule_required = False, rule_default = JUndefined, rule_allow = []\<rparr>"

definition required :: "joi_rule \<Rightarrow> joi_rule" where
  "required r = r\<lparr>rule_required := True\<rparr>"

definition default_to :: "jsval \<Rightarrow> joi_rule \<Rightarrow> joi_rule" where
  "default_to v r = r\<lparr>rule_default := v\<rparr>"

definition allow :: "jsval \<Rightarrow> joi_rule \<Rightarrow> joi_rule" where
  "allow v r = r\<lparr>rule_allow := v # rule_allow r\<rparr>"

fun has_type :: "joi_type \<Rightarrow> jsval \<Rightarrow> bool" where
  "has_type JoiString (JStr s) = (s \<noteq> [])"
| "has_type JoiNumber (JNum n) = True"
| "has_type JoiBoolean (JBool b) = True"
| "has_type t v = False"

text \<open>The conversion of a value towards the type of a rule.\<close>

fun joi_convert :: "library \<Rightarrow> joi_type \<Rightarrow> jsval \<Rightarrow> jsval" where
  "joi_convert L JoiNumber (JStr s) = (case joi_to_number L s of Some q \<Rightarrow> JNum q | None \<Rightarrow> JStr s)"
| "joi_convert L JoiBoolean (JStr s) = (case joi_to_boolean L s of Some b \<Rightarrow> JBool b | None \<Rightarrow> JStr s)"
| "joi_convert L t v = v"

text \<open>
  Validation of the value under the key \<open>key\<close>: the validated value, which is the converted
  one, or the violation.
\<close>

definition joi_validate :: "library \<Rightarrow> joi_rule \<Rightarrow> string \<Rightarrow> jsval \<Rightarrow> js_error + jsval" where
  "joi_validate L r key v =
     (if v = JUndefined then
        (if rule_required r then Inl (Error (key @ '' is required''))
         else Inr (rule_default r))
      else if v \<in> set (rule_allow r) then Inr v
      else if has_type (rule_type r) (joi_convert L (rule_type r) v)
      then Inr (joi_convert L (rule_type r) v)
      else Inl (Error (key @ '' is not valid'')))"

text \<open>Sequencing of validations: the first violation ends the validation.\<close>

definition and_then :: "js_error + 'a \<Rightarrow> ('a \<Rightarrow> js_error + 'b) \<Rightarrow> js_error + 'b" where
  "and_then x f = (case x of Inl e \<Rightarrow> Inl e | Inr a \<Rightarrow> f a)"

text \<open>
  The schema of \<^verbatim>\<open>build\<close> and of \<^verbatim>\<open>machine\<close>:
  \<^verbatim>\<open>Joi.object().keys({platform: Joi.string().required(), os_name: Joi.string().default('-'),
  architecture: Joi.string().default('-')}).required().rename('os', 'os_name')\<close>.
  The renaming comes first. It does not override: it is refused whenever the object has
  \<^verbatim>\<open>os_name\<close> already, with or without \<^verbatim>\<open>os\<close>; otherwise \<^verbatim>\<open>os_name\<close> takes the value of
  \<^verbatim>\<open>os\<close> and \<^verbatim>\<open>os\<close> is removed.
\<close>

definition validate_platform :: "library \<Rightarrow> string \<Rightarrow> platform_info \<Rightarrow> js_error + platform_info" where
  "validate_platform L key p =
     (if os_name p \<noteq> JUndefined
      then Inl (Error (key @ '' cannot rename os: os_name exists''))
      else
        and_then (joi_validate L (required Joi_string) (key @ ''.platform'') (platform p)) (\<lambda>pl.
        and_then (joi_validate L (default_to (JStr ''-'') Joi_string) (key @ ''.os_name'') (os p)) (\<lambda>osn.
        and_then (joi_validate L (default_to (JStr ''-'') Joi_string) (key @ ''.architecture'')
                    (architecture p)) (\<lambda>ar.
        Inr \<lparr>platform = pl, os = JUndefined, os_name = osn, architecture = ar\<rparr>))))"

text \<open>
  \<^verbatim>\<open>collection: Joi.object().unknown(true).keys({opt: Joi.boolean(), ...})\<close>: the seven known
  keys hold booleans when they are present (after conversion), any other key is accepted
  as it is.
\<close>

definition collection_keys :: "string list" where
  "collection_keys = [''opt'', ''debug'', ''pgo'', ''cc'', ''asan'', ''tsan'', ''addon'']"

fun validate_collection :: "library \<Rightarrow> (string \<times> jsval) list \<Rightarrow> js_error + (string \<times> jsval) list" where
  "validate_collection L [] = Inr []"
| "validate_collection L ((k, v) # kvs) =
     and_then (if k \<in> set collection_keys then joi_validate L Joi_boolean (''collection.'' @ k) v else Inr v) (\<lambda>v'.
     and_then (validate_collection L kvs) (\<lambda>kvs'. Inr ((k, v') # kvs')))"

text \<open>\<^verbatim>\<open>Joi.validate(treeherder, SCHEMA)\<close>, key by key in the order of the schema.\<close>

definition validate_SCHEMA :: "library \<Rightarrow> treeherder \<Rightarrow> js_error + treeherder" where
  "validate_SCHEMA L t =
     and_then (validate_platform L ''build'' (build t)) (\<lambda>b.
     and_then (validate_platform L ''machine'' (machine t)) (\<lambda>m.
     and_then (joi_validate L Joi_string ''machineId'' (machineId t)) (\<lambda>mid.
     and_then (joi_validate L (required Joi_string) ''symbol'' (symbol t)) (\<lambda>sy.
     and_then (joi_validate L (default_to (JStr ''unknown'') Joi_string) ''groupName'' (groupName t)) (\<lambda>gn.
     and_then (joi_validate L (default_to (JStr ''?'') Joi_string) ''groupSymbol'' (groupSymbol t)) (\<lambda>gs.
     and_then (joi_validate L (default_to (JNum 1) Joi_number) ''tier'' (tier t)) (\<lambda>ti.
     and_then (joi_validate L Joi_string ''productName'' (productName t)) (\<lambda>pn.
     and_then (case collection t of None \<Rightarrow> Inr None
               | Some c \<Rightarrow> and_then (validate_collection L c) (\<lambda>c'. Inr (Some c'))) (\<lambda>co.
     and_then (joi_validate L (allow (JStr []) Joi_string) ''revision_hash'' (revision_hash t)) (\<lambda>rh.
     and_then (joi_validate L (allow (JStr []) Joi_string) ''revision'' (revision t)) (\<lambda>rv.
     and_then (joi_validate L (allow (JStr []) Joi_string) ''jobKind'' (jobKind t)) (\<lambda>jk.
     Inr \<lparr>build = b, machine = m, machineId = mid, symbol = sy, groupName = gn,
          groupSymbol = gs, tier = ti, productName = pn, collection = co,
          revision_hash = rh, revision = rv, jobKind = jk\<rparr>))))))))))))"


section \<open>From a task and a run to a job\<close>

text \<open>\<^verbatim>\<open>Math.floor(new Date(date).getTime() / 1000)\<close> on the milliseconds of the date.\<close>

definition timestamp :: "int \<Rightarrow> int" where
  "timestamp date = date div 1000"

definition inspectorLink :: "string \<Rightarrow> run \<Rightarrow> string" where
  "inspectorLink taskId r =
     ''https://tools.taskcluster.net/task-inspector/#'' @ taskId @ ''/'' @ show_nat (runId r)"

text \<open>
  \<^verbatim>\<open>queue.buildUrl(queue.getArtifact, taskId, runId, name)\<close> belongs to the queue client, not to
  this repository: it is the parameter \<open>buildUrl\<close>.
\<close>

definition createLogReferences ::
  "(string \<Rightarrow> nat \<Rightarrow> string \<Rightarrow> string) \<Rightarrow> string \<Rightarrow> run \<Rightarrow> log_reference list" where
  "createLogReferences buildUrl taskId r =
     [\<lparr>log_name = ''builds-4h'',
       log_url = buildUrl taskId (runId r) ''public/logs/live_backing.log''\<rparr>]"

definition empty_platform :: platform_info where
  "empty_platform = \<lparr>platform = JUndefined, os = JUndefined, os_name = JUndefined, architecture = JUndefined\<rparr>"

text \<open>The object \<^verbatim>\<open>{}\<close> taken when the task has no \<^verbatim>\<open>extra.treeherder\<close>.\<close>

definition empty_treeherder :: treeherder where
  "empty_treeherder =
     \<lparr>build = empty_platform, machine = empty_platform, machineId = JUndefined,
      symbol = JUndefined, groupName = JUndefined, groupSymbol = JUndefined, tier = JUndefined,
      productName = JUndefined, collection = None, revision_hash = JUndefined,
      revision = JUndefined, jobKind = JUndefined\<rparr>"

text \<open>\<^verbatim>\<open>_.merge\<close> on one key: the task's value wins unless it is undefined.\<close>

definition merge_value :: "jsval \<Rightarrow> jsval \<Rightarrow> jsval" where
  "merge_value dflt v = (if v = JUndefined then dflt else v)"

text \<open>
  \<^verbatim>\<open>_.merge({build: {platform: task.workerType}, machine: {platform: task.workerType},
  machineId: run.workerId, revision_hash: "", revision: ""}, treeherder)\<close>.
\<close>

definition merge_defaults :: "task \<Rightarrow> run \<Rightarrow> treeherder \<Rightarrow> treeherder" where
  "merge_defaults t r th =
     th\<lparr>build := (build th)\<lparr>platform := merge_value (JStr (workerType t)) (platform (build th))\<rparr>,
        machine := (machine th)\<lparr>platform := merge_value (JStr (workerType t)) (platform (machine th))\<rparr>,
        machineId := merge_value (workerId r) (machineId th),
        revision_hash := merge_value (JStr []) (revision_hash th),
        revision := merge_value (JStr []) (revision th)\<rparr>"

text \<open>
  \<^verbatim>\<open>jobFromTask(taskId, task, run)\<close>. The result is the job, or the error thrown when the
  validation fails.
\<close>

definition jobFromTask :: "library \<Rightarrow> string \<Rightarrow> task \<Rightarrow> run \<Rightarrow> js_error + job" where
  "jobFromTask L taskId t r =
     (let th0 = (case extra_treeherder t of Some th \<Rightarrow> th | None \<Rightarrow> empty_treeherder);
          th1 = merge_defaults t r th0;
          th2 = (if collection th1 = None then th1\<lparr>collection := Some [(''opt'', JBool True)]\<rparr> else th1);
          th3 = (case symbol th2 of JNum n \<Rightarrow> th2\<lparr>symbol := JStr (String_number L n)\<rparr> | _ \<Rightarrow> th2)
      in case validate_SCHEMA L th3 of
           Inl e \<Rightarrow> Inl e
         | Inr config \<Rightarrow>
             Inr \<lparr>job_guid = slugid_decode L taskId @ ''/'' @ show_nat (runId r),
                  build_system_type = ''taskcluster'',
                  build_platform = build config,
                  machine_platform = machine config,
                  job_machine = machineId config,
                  name = take 99 (metadata_name t),
                  reason = ''scheduled'',
                  job_symbol = symbol config,
                  submit_timestamp = timestamp (created t),
                  start_timestamp = map_option timestamp (started r),
                  end_timestamp = map_option timestamp (resolved r),
                  who = metadata_owner t,
                  option_collection = (case collection config of Some c \<Rightarrow> c | None \<Rightarrow> []),
                  group_name = (if truthy (groupName config) then Some (groupName config) else None),
                  group_symbol = (if truthy (groupSymbol config) then Some (groupSymbol config) else None),
                  product_name = (if truthy (productName config) then Some (productName config) else None),
                  job_tier = (if truthy (tier config) then Some (tier config) else None),
                  artifacts =
                    [\<lparr>artifact_type = ''json'', artifact_name = ''Job Info'',
                      blob_job_details =
                        [\<lparr>url = inspectorLink taskId r, detail_value = ''Inspect Task'',
                          content_type = ''link'', title = ''Inspect Task''\<rparr>]\<rparr>],
                  job_state = None,
                  result = None,
                  log_references = None\<rparr>)"


section \<open>The pending pushes of the handler\<close>

text \<open>
  What \<^verbatim>\<open>addPush\<close> receives: \<open>push_revision_hash\<close> and \<open>push_revision\<close> are the properties
  \<^verbatim>\<open>revision_hash\<close> and \<^verbatim>\<open>revision\<close>.
\<close>

record push =
  push_revision_hash :: jsval
  push_revision :: jsval
  project :: string
  job :: job

text \<open>
  Arrays and deferred promises are objects with an identity: \<^verbatim>\<open>tryPush\<close> keeps the array and
  the promise it has taken out of \<^verbatim>\<open>pending\<close> while \<^verbatim>\<open>addPush\<close> goes on writing through
  \<^verbatim>\<open>pending\<close>. So the handler has a store of arrays and a store of promises, an address is
  an index into the store, and allocation (\<^verbatim>\<open>[]\<close>, \<^verbatim>\<open>defer()\<close>) extends the store.
\<close>

type_synonym response = string

datatype promise_state = Unsettled | Accepted response | Rejected js_error

text \<open>One value of \<^verbatim>\<open>this._pendingPushes\<close>: the addresses of its promise and of its array.\<close>

record pending =
  promise :: nat
  pushes :: nat
  active :: bool

text \<open>
  The variables of one call of \<^verbatim>\<open>tryPush\<close>: the project name and the array and promise it
  extracted from \<^verbatim>\<open>pending\<close>.
\<close>

record flush =
  flush_project :: string
  flush_pushes :: nat
  flush_promise :: nat

text \<open>
  The state of a \<^verbatim>\<open>Handler\<close>. \<open>projects\<close> lists the keys of \<^verbatim>\<open>this.projects\<close>;
  \<open>pendingPushes\<close> is \<^verbatim>\<open>this._pendingPushes\<close>, its keys in insertion order; \<open>running\<close> holds
  the calls of \<^verbatim>\<open>tryPush\<close> that are suspended at \<^verbatim>\<open>await project.postJobs(pushes)\<close>;
  \<open>flush_log\<close> records every call of \<^verbatim>\<open>tryPush\<close> so far, oldest first (the source reports
  each one with \<^verbatim>\<open>debug('running push', ...)\<close>).
\<close>

record handler =
  projects :: "string list"
  pendingPushes :: "(string \<times> pending) list"
  arrays :: "push list list"
  promises :: "promise_state list"
  running :: "flush list"
  flush_log :: "flush list"

text \<open>The handler the constructor builds.\<close>

definition new_handler :: handler where
  "new_handler = \<lparr>projects = [], pendingPushes = [], arrays = [], promises = [],
                   running = [], flush_log = []\<rparr>"

definition getProject :: "string \<Rightarrow> handler \<Rightarrow> handler" where
  "getProject projectName h =
     (if projectName \<in> set (projects h) then h
      else h\<lparr>projects := projects h @ [projectName]\<rparr>)"

text \<open>\<^verbatim>\<open>a.push(x)\<close> on the array at address \<open>a\<close>.\<close>

definition array_push :: "nat \<Rightarrow> push \<Rightarrow> handler \<Rightarrow> handler" where
  "array_push a x h = h\<lparr>arrays := (arrays h)[a := arrays h ! a @ [x] ]\<rparr>"

text \<open>\<^verbatim>\<open>addPush(push)\<close>: the promise it returns and the handler afterwards.\<close>

definition addPush :: "push \<Rightarrow> handler \<Rightarrow> nat \<times> handler" where
  "addPush p h =
     (case map_of (pendingPushes h) (project p) of
        Some pending \<Rightarrow> (promise pending, array_push (pushes pending) p h)
      | None \<Rightarrow>
          (let pending = \<lparr>promise = length (promises h), pushes = length (arrays h), active = False\<rparr>;
               h1 = h\<lparr>pendingPushes := pendingPushes h @ [(project p, pending)],
                      promises := promises h @ [Unsettled],
                      arrays := arrays h @ [ [] ]\<rparr>
           in (promise pending, array_push (pushes pending) p h1)))"

text \<open>
  The end of \<^verbatim>\<open>tryPush\<close>, in its \<^verbatim>\<open>try\<close> or in its \<^verbatim>\<open>catch\<close>: the extracted promise is
  accepted or rejected and \<^verbatim>\<open>pending.active\<close> becomes false. The \<^verbatim>\<open>catch\<close> reads
  \<^verbatim>\<open>err.stack\<close> first: what \<^verbatim>\<open>postJobs\<close> throws is an error object, a value of \<open>js_error\<close>.
\<close>

definition settle :: "flush \<Rightarrow> js_error + response \<Rightarrow> handler \<Rightarrow> handler" where
  "settle f outcome h =
     h\<lparr>promises := (promises h)[flush_promise f :=
          (case outcome of Inr res \<Rightarrow> Accepted res | Inl err \<Rightarrow> Rejected err)],
       pendingPushes := AList.map_entry (flush_project f) (\<lambda>pending. pending\<lparr>active := False\<rparr>)
                          (pendingPushes h)\<rparr>"

text \<open>
  \<^verbatim>\<open>tryPush(projectName, pending)\<close> up to its \<^verbatim>\<open>await\<close>. \<open>pending\<close> is the value that
  \<^verbatim>\<open>check\<close> has read under \<open>projectName\<close>. When \<^verbatim>\<open>this.projects\<close> has no such project the
  call of \<^verbatim>\<open>postJobs\<close> on \<^verbatim>\<open>undefined\<close> throws inside the \<^verbatim>\<open>try\<close>, and the \<^verbatim>\<open>catch\<close> runs
  at once.
\<close>

definition tryPush :: "string \<Rightarrow> pending \<Rightarrow> handler \<Rightarrow> handler" where
  "tryPush projectName pending h =
     (let f = \<lparr>flush_project = projectName, flush_pushes = pushes pending,
               flush_promise = promise pending\<rparr>;
          h1 = h\<lparr>pendingPushes :=
                   AList.map_entry projectName
                     (\<lambda>pending. pending\<lparr>active := True, promise := length (promises h),
                                        pushes := length (arrays h)\<rparr>)
                     (pendingPushes h),
                 promises := promises h @ [Unsettled],
                 arrays := arrays h @ [ [] ],
                 flush_log := flush_log h @ [f]\<rparr>
      in if projectName \<in> set (projects h)
         then h1\<lparr>running := running h1 @ [f]\<rparr>
         else settle f (Inl (TypeError ''Cannot read property postJobs of undefined'')) h1)"

text \<open>
  The rest of the \<open>i\<close>-th suspended \<^verbatim>\<open>tryPush\<close>, when \<^verbatim>\<open>postJobs\<close> has answered with
  \<open>outcome\<close> (\<open>Inl\<close>: it failed).
\<close>

definition tryPush_resume :: "nat \<Rightarrow> js_error + response \<Rightarrow> handler \<Rightarrow> handler" where
  "tryPush_resume i outcome h =
     (if i < length (running h)
      then settle (running h ! i) outcome
             (h\<lparr>running := take i (running h) @ drop (Suc i) (running h)\<rparr>)
      else h)"

text \<open>One round of the loop of \<^verbatim>\<open>check\<close>.\<close>

definition check_project :: "handler \<Rightarrow> string \<Rightarrow> handler" where
  "check_project h projectName =
     (case map_of (pendingPushes h) projectName of
        None \<Rightarrow> h
      | Some pending \<Rightarrow>
          if \<not> active pending \<and> arrays h ! pushes pending \<noteq> []
          then tryPush projectName pending h
          else h)"

text \<open>\<^verbatim>\<open>check()\<close> up to its \<^verbatim>\<open>await\<close>: the loop over \<^verbatim>\<open>Object.keys(this._pendingPushes)\<close>.\<close>

definition check :: "handler \<Rightarrow> handler" where
  "check h = foldl check_project h (map fst (pendingPushes h))"

text \<open>
  What can happen to a handler, one at a time: a call of \<^verbatim>\<open>getProject\<close>, a call of
  \<^verbatim>\<open>addPush\<close>, a tick of the timer (a call of \<^verbatim>\<open>check\<close>), or the answer of \<^verbatim>\<open>postJobs\<close> to
  the \<open>i\<close>-th suspended \<^verbatim>\<open>tryPush\<close>.
\<close>

datatype event =
    CallGetProject string
  | CallAddPush push
  | Tick
  | PostJobsAnswer nat "js_error + response"

fun step :: "handler \<Rightarrow> event \<Rightarrow> handler" where
  "step h (CallGetProject n) = getProject n h"
| "step h (CallAddPush p) = snd (addPush p h)"
| "step h Tick = check h"
| "step h (PostJobsAnswer i outcome) = tryPush_resume i outcome h"

definition run_events :: "event list \<Rightarrow> handler" where
  "run_events evs = foldl step new_handler evs"

text \<open>The pushes that the events hand to \<^verbatim>\<open>addPush\<close> for the project \<open>P\<close>, in order.\<close>

fun contributions :: "string \<Rightarrow> event list \<Rightarrow> push list" where
  "contributions P [] = []"
| "contributions P (CallAddPush p # evs) =
     (if project p = P then p # contributions P evs else contributions P evs)"
| "contributions P (e # evs) = contributions P evs"

text \<open>The pending list of a project, and the batches its calls of \<^verbatim>\<open>tryPush\<close> extracted.\<close>

definition pending_list :: "handler \<Rightarrow> string \<Rightarrow> push list" where
  "pending_list h P =
     (case map_of (pendingPushes h) P of None \<Rightarrow> [] | Some pending \<Rightarrow> arrays h ! pushes pending)"

definition batches :: "handler \<Rightarrow> string \<Rightarrow> push list list" where
  "batches h P = map (\<lambda>f. arrays h ! flush_pushes f) (filter (\<lambda>f. flush_project f = P) (flush_log h))"

definition in_flight :: "handler \<Rightarrow> string \<Rightarrow> flush list" where
  "in_flight h P = filter (\<lambda>f. flush_project f = P) (running h)"

text \<open>What the calls of \<^verbatim>\<open>postJobs\<close> that have not answered yet were given.\<close>

definition in_flight_batches :: "handler \<Rightarrow> string \<Rightarrow> push list list" where
  "in_flight_batches h P = map (\<lambda>f. arrays h ! flush_pushes f) (in_flight h P)"

definition is_active :: "handler \<Rightarrow> string \<Rightarrow> bool" where
  "is_active h P = (case map_of (pendingPushes h) P of None \<Rightarrow> False | Some pending \<Rightarrow> active pending)"


section \<open>The event handlers\<close>

text \<open>
  \<open>payload_runId\<close> is \<^verbatim>\<open>payload.runId\<close>, \<open>status_taskId\<close> and \<open>status_runs\<close> are
  \<^verbatim>\<open>payload.status.taskId\<close> and \<^verbatim>\<open>payload.status.runs\<close>.
\<close>

record payload =
  payload_runId :: nat
  status_taskId :: string
  status_runs :: "run list"

record message =
  message_payload :: payload
  exchange :: string
  routes :: "string list"

text \<open>
  What \<^verbatim>\<open>parseRoute\<close> returns, also the \<^verbatim>\<open>pushInfo\<close> of the handlers: the properties
  \<^verbatim>\<open>project\<close>, \<^verbatim>\<open>revision\<close> and \<^verbatim>\<open>revisionHash\<close>.
\<close>

record parsedRoute =
  route_project :: "string option"
  route_revision :: jsval
  route_revisionHash :: jsval

record taskInfo =
  reruns :: int

text \<open>
  The functions of other modules and of the clients that the handlers call, beside the
  library functions \<open>lib\<close>. \<open>parseRoute\<close> is
  the route parser of \<^verbatim>\<open>../util/route_parser\<close>; \<open>queue_task\<close> and \<open>scheduler_inspectTask\<close>
  give the outcome of the awaited request (\<open>Inl\<close>: the request failed); the five exchanges
  are \<^verbatim>\<open>events.taskPending().exchange\<close> and so on.
\<close>

record collaborators =
  lib :: library
  queue_buildUrl :: "string \<Rightarrow> nat \<Rightarrow> string \<Rightarrow> string"
  queue_task :: "string \<Rightarrow> js_error + task"
  scheduler_inspectTask :: "string \<Rightarrow> string \<Rightarrow> js_error + taskInfo"
  parseRoute :: "string \<Rightarrow> parsedRoute"
  taskPending_exchange :: string
  taskRunning_exchange :: string
  taskCompleted_exchange :: string
  taskFailed_exchange :: string
  taskException_exchange :: string

text \<open>
  An event handler is an \<^verbatim>\<open>async\<close> function that calls \<^verbatim>\<open>getProject\<close> and
  \<^verbatim>\<open>await this.addPush(...)\<close> and then returns or throws. It is embedded as the course it
  takes: \<open>AwaitPush p k\<close> hands \<open>p\<close> to \<^verbatim>\<open>addPush\<close>, awaits the promise that \<^verbatim>\<open>addPush\<close>
  returns, and goes on as \<open>k\<close> once that promise is accepted. No handler catches around
  \<^verbatim>\<open>addPush\<close>, so a rejected promise ends the handler with the error of the rejection.
  The calls of \<^verbatim>\<open>debug\<close> and \<^verbatim>\<open>console.error\<close> leave no trace in the model, except where
  computing their argument throws.
\<close>

datatype proc = Done | Throw js_error | GetProject string proc | AwaitPush push proc

text \<open>\<open>then_proc a b\<close> is \<^verbatim>\<open>await a; b\<close>: \<open>b\<close> runs when \<open>a\<close> has returned.\<close>

fun then_proc :: "proc \<Rightarrow> proc \<Rightarrow> proc" where
  "then_proc Done b = b"
| "then_proc (Throw e) b = Throw e"
| "then_proc (GetProject n k) b = GetProject n (then_proc k b)"
| "then_proc (AwaitPush p k) b = AwaitPush p (then_proc k b)"

text \<open>
  How a handler ended, and what it handed to \<^verbatim>\<open>addPush\<close>, when the promises it awaited were
  settled as \<open>outcomes\<close> tells, one outcome for each \<^verbatim>\<open>await this.addPush(...)\<close> in turn
  (\<open>Inl\<close>: rejected); with no outcome left the handler is still waiting.
\<close>

datatype completion = Returned | Threw js_error | Awaiting

fun perform :: "proc \<Rightarrow> (js_error + response) list \<Rightarrow> push list \<times> completion" where
  "perform Done outcomes = ([], Returned)"
| "perform (Throw e) outcomes = ([], Threw e)"
| "perform (GetProject n k) outcomes = perform k outcomes"
| "perform (AwaitPush p k) [] = ([p], Awaiting)"
| "perform (AwaitPush p k) (Inl e # outcomes) = ([p], Threw e)"
| "perform (AwaitPush p k) (Inr res # outcomes) =
     (case perform k outcomes of (ps, c) \<Rightarrow> (p # ps, c))"

definition contributed :: "proc \<Rightarrow> (js_error + response) list \<Rightarrow> push list" where
  "contributed k outcomes = fst (perform k outcomes)"

text \<open>\<^verbatim>\<open>xs[i]\<close>: \<open>None\<close> is \<^verbatim>\<open>undefined\<close>.\<close>

definition nth_opt :: "'a list \<Rightarrow> nat \<Rightarrow> 'a option" where
  "nth_opt xs i = (if i < length xs then Some (xs ! i) else None)"

text \<open>The error of reading a property of \<^verbatim>\<open>undefined\<close>.\<close>

definition undefined_run :: js_error where
  "undefined_run = TypeError ''Cannot read property of undefined''"

text \<open>
  The push that every handler builds: \<^verbatim>\<open>{revision_hash: pushInfo.revisionHash, revision:
  pushInfo.revision, project: pushInfo.project, job: ...}\<close>. The handlers run only after
  \<^verbatim>\<open>handleTaskEvent\<close> has found \<^verbatim>\<open>pushInfo.project\<close> truthy; \<^verbatim>\<open>undefined\<close> as a key of
  \<^verbatim>\<open>_pendingPushes\<close> is the string \<^verbatim>\<open>"undefined"\<close>.
\<close>

definition make_push :: "parsedRoute \<Rightarrow> job \<Rightarrow> push" where
  "make_push pushInfo j =
     \<lparr>push_revision_hash = route_revisionHash pushInfo,
      push_revision = route_revision pushInfo,
      project = (case route_project pushInfo of Some n \<Rightarrow> n | None \<Rightarrow> ''undefined''),
      job = j\<rparr>"

definition handleTaskRerun :: "collaborators \<Rightarrow> parsedRoute \<Rightarrow> task \<Rightarrow> payload \<Rightarrow> proc" where
  "handleTaskRerun c pushInfo t pl =
     (let taskId = status_taskId pl in
      case (if payload_runId pl = 0 then None
            else nth_opt (status_runs pl) (payload_runId pl - 1)) of
        None \<Rightarrow> Throw undefined_run
      | Some r \<Rightarrow>
          (case jobFromTask (lib c) taskId t r of
             Inl e \<Rightarrow> Throw e
           | Inr j \<Rightarrow>
               AwaitPush
                 (make_push pushInfo
                    (j\<lparr>job_state := Some ''completed'', result := Some ''retry'',
                       log_references := Some (createLogReferences (queue_buildUrl c) taskId r)\<rparr>))
                 Done))"

definition handleTaskPending :: "collaborators \<Rightarrow> parsedRoute \<Rightarrow> task \<Rightarrow> payload \<Rightarrow> proc" where
  "handleTaskPending c pushInfo t pl =
     (let taskId = status_taskId pl in
      case nth_opt (status_runs pl) (payload_runId pl) of
        None \<Rightarrow> Throw undefined_run
      | Some r \<Rightarrow>
          then_proc
            (if payload_runId pl \<noteq> 0 \<and>
                (reasonCreated r = ''rerun'' \<or> reasonCreated r = ''retry'')
             then handleTaskRerun c pushInfo t pl
             else Done)
            (case jobFromTask (lib c) taskId t r of
               Inl e \<Rightarrow> Throw e
               | Inr j \<Rightarrow>
                   AwaitPush
                     (make_push pushInfo
                        (j\<lparr>job_state := Some (stateFromRun r), result := Some (resultFromRun r)\<rparr>))
                     Done))"

definition shouldReportExceptionRun :: "run \<Rightarrow> bool" where
  "shouldReportExceptionRun r = (reasonCreated r \<noteq> ''exception'')"

definition handleTaskRunning :: "collaborators \<Rightarrow> parsedRoute \<Rightarrow> task \<Rightarrow> payload \<Rightarrow> proc" where
  "handleTaskRunning c pushInfo t pl =
     (let taskId = status_taskId pl in
      case nth_opt (status_runs pl) (payload_runId pl) of
        None \<Rightarrow> Throw undefined_run
      | Some r \<Rightarrow>
          (case jobFromTask (lib c) taskId t r of
             Inl e \<Rightarrow> Throw e
             | Inr j \<Rightarrow>
                 AwaitPush
                   (make_push pushInfo
                      (j\<lparr>job_state := Some (stateFromRun r), result := Some (resultFromRun r)\<rparr>))
                   Done))"

definition handleTaskException :: "collaborators \<Rightarrow> parsedRoute \<Rightarrow> task \<Rightarrow> payload \<Rightarrow> proc" where
  "handleTaskException c pushInfo t pl =
     (let taskId = status_taskId pl in
      case nth_opt (status_runs pl) (payload_runId pl) of
        None \<Rightarrow> Throw undefined_run
      | Some r \<Rightarrow>
          if \<not> shouldReportExceptionRun r then Done
          else
            (case jobFromTask (lib c) taskId t r of
               Inl e \<Rightarrow> Throw e
               | Inr j \<Rightarrow>
                   AwaitPush
                     (make_push pushInfo
                        (j\<lparr>job_state := Some (stateFromRun r), result := Some (resultFromRun r)\<rparr>))
                     Done))"

text \<open>
  \<^verbatim>\<open>handleTaskFailed\<close>: the scheduler is asked only for a task of the task graph scheduler
  that has a task group; an error of the request, or of reading its answer, is caught.
\<close>

definition handleTaskFailed :: "collaborators \<Rightarrow> parsedRoute \<Rightarrow> task \<Rightarrow> payload \<Rightarrow> proc" where
  "handleTaskFailed c pushInfo t pl =
     (let taskId = status_taskId pl in
      case nth_opt (status_runs pl) (payload_runId pl) of
        None \<Rightarrow> Throw undefined_run
      | Some r \<Rightarrow>
          if schedulerId t = ''task-graph-scheduler'' \<and>
             (case taskGroupId t of None \<Rightarrow> False | Some g \<Rightarrow> g \<noteq> []) \<and>
             (case scheduler_inspectTask c (case taskGroupId t of Some g \<Rightarrow> g | None \<Rightarrow> []) taskId of
                Inl e \<Rightarrow> False
              | Inr taskInfo \<Rightarrow> reruns taskInfo > int (payload_runId pl))
          then Done
          else
            (case jobFromTask (lib c) taskId t r of
               Inl e \<Rightarrow> Throw e
               | Inr j \<Rightarrow>
                   AwaitPush
                     (make_push pushInfo
                        (j\<lparr>job_state := Some (stateFromRun r), result := Some (resultFromRun r),
                           log_references := Some (createLogReferences (queue_buildUrl c) taskId r)\<rparr>))
                     Done))"

definition handleTaskCompleted :: "collaborators \<Rightarrow> parsedRoute \<Rightarrow> task \<Rightarrow> payload \<Rightarrow> proc" where
  "handleTaskCompleted c pushInfo t pl =
     (let taskId = status_taskId pl in
      case nth_opt (status_runs pl) (payload_runId pl) of
        None \<Rightarrow> Throw undefined_run
      | Some r \<Rightarrow>
          (case jobFromTask (lib c) taskId t r of
             Inl e \<Rightarrow> Throw e
             | Inr j \<Rightarrow>
                 AwaitPush
                   (make_push pushInfo
                      (j\<lparr>job_state := Some (stateFromRun r), result := Some (resultFromRun r),
                         log_references := Some (createLogReferences (queue_buildUrl c) taskId r)\<rparr>))
                   Done))"

text \<open>
  \<^verbatim>\<open>EVENT_MAP\<close>, an object literal with computed keys: of two equal keys the later one
  stays.
\<close>

definition EVENT_MAP :: "collaborators \<Rightarrow> string \<Rightarrow> string option" where
  "EVENT_MAP c =
     map_of (rev [(taskPending_exchange c, ''pending''),
                  (taskRunning_exchange c, ''running''),
                  (taskCompleted_exchange c, ''completed''),
                  (taskFailed_exchange c, ''failed''),
                  (taskException_exchange c, ''exception'')])"

text \<open>\<^verbatim>\<open>route.split('.')[0]\<close>.\<close>

definition first_segment :: "string \<Rightarrow> string" where
  "first_segment route = takeWhile (\<lambda>ch. ch \<noteq> CHR ''.'') route"

text \<open>
  The two \<^verbatim>\<open>debug\<close> calls of \<^verbatim>\<open>handleTaskEvent\<close> interpolate \<^verbatim>\<open>${taskId}\<close>, and the function
  and the module declare no \<^verbatim>\<open>taskId\<close>: computing the argument throws this error before
  \<^verbatim>\<open>debug\<close> is called and before the \<^verbatim>\<open>return\<close> that follows.
\<close>

definition taskId_not_defined :: js_error where
  "taskId_not_defined = ReferenceError ''taskId is not defined''"

text \<open>\<^verbatim>\<open>handleTaskEvent(message)\<close>, with \<open>prefix\<close> for \<^verbatim>\<open>this.prefix\<close>.\<close>

definition handleTaskEvent :: "collaborators \<Rightarrow> string \<Rightarrow> message \<Rightarrow> proc" where
  "handleTaskEvent c prefix msg =
     (case EVENT_MAP c (exchange msg) of
        None \<Rightarrow> Done
      | Some kind \<Rightarrow>
          (case find (\<lambda>route. first_segment route = prefix) (routes msg) of
             None \<Rightarrow> Throw (Error (''Unexpected message (no route) on '' @ exchange msg))
           | Some route \<Rightarrow>
               if route = [] then Throw (Error (''Unexpected message (no route) on '' @ exchange msg))
               else
                 (let parsed = parseRoute c route in
                  case route_project parsed of
                    None \<Rightarrow> Throw taskId_not_defined
                  | Some projectName \<Rightarrow>
                      if projectName = [] then Throw taskId_not_defined
                      else
                        GetProject projectName
                          (case queue_task c (status_taskId (message_payload msg)) of
                             Inl e \<Rightarrow> Throw e
                           | Inr t \<Rightarrow>
                               (let task_revision = (case extra_treeherder t of None \<Rightarrow> JUndefined
                                                     | Some th \<Rightarrow> revision th);
                                    parsedRoute = (if truthy task_revision
                                                   then parsed\<lparr>route_revision := task_revision\<rparr>
                                                   else parsed)
                                in if \<not> truthy (route_revision parsedRoute) \<and>
                                      \<not> truthy (route_revisionHash parsedRoute)
                                   then Throw taskId_not_defined
                                   else if kind = ''pending''
                                     then handleTaskPending c parsedRoute t (message_payload msg)
                                   else if kind = ''running''
                                     then handleTaskRunning c parsedRoute t (message_payload msg)
                                   else if kind = ''completed''
                                     then handleTaskCompleted c parsedRoute t (message_payload msg)
                                   else if kind = ''exception''
                                     then handleTaskException c parsedRoute t (message_payload msg)
                                   else if kind = ''failed''
                                     then handleTaskFailed c parsedRoute t (message_payload msg)
                                   else Done)))))"


section \<open>Consistency of the handler state\<close>

text \<open>
  Two properties that every state reached from \<open>new_handler\<close> has. The first is about the
  stores: every address held by \<^verbatim>\<open>_pendingPushes\<close> or by a call of \<^verbatim>\<open>tryPush\<close> is allocated,
  two projects never share an array or a promise, and an array or promise extracted by
  \<^verbatim>\<open>tryPush\<close> is no longer the one of any project.
\<close>

definition stores_ok :: "handler \<Rightarrow> bool" where
  "stores_ok h \<longleftrightarrow>
     (\<forall>P p. map_of (pendingPushes h) P = Some p \<longrightarrow>
        pushes p < length (arrays h) \<and> promise p < length (promises h)) \<and>
     (\<forall>P Q p q. map_of (pendingPushes h) P = Some p \<longrightarrow> map_of (pendingPushes h) Q = Some q \<longrightarrow>
        P \<noteq> Q \<longrightarrow> pushes p \<noteq> pushes q \<and> promise p \<noteq> promise q) \<and>
     (\<forall>f \<in> set (flush_log h).
        flush_pushes f < length (arrays h) \<and> flush_promise f < length (promises h)) \<and>
     (\<forall>P p. map_of (pendingPushes h) P = Some p \<longrightarrow>
        (\<forall>f \<in> set (flush_log h). pushes p \<noteq> flush_pushes f \<and> promise p \<noteq> flush_promise f))"

text \<open>
  The second is about the flushes: the keys of \<^verbatim>\<open>_pendingPushes\<close> are distinct, the suspended
  calls of \<^verbatim>\<open>tryPush\<close> are among the logged ones, no two of them are for the same project,
  and \<^verbatim>\<open>pending.active\<close> is true exactly while a call for the project is suspended.
\<close>

definition flights_ok :: "handler \<Rightarrow> bool" where
  "flights_ok h \<longleftrightarrow>
     distinct (map fst (pendingPushes h)) \<and>
     set (running h) \<subseteq> set (flush_log h) \<and>
     distinct (map flush_project (running h)) \<and>
     (\<forall>f \<in> set (running h). \<exists>p. map_of (pendingPushes h) (flush_project f) = Some p) \<and>
     (\<forall>P p. map_of (pendingPushes h) P = Some p \<longrightarrow>
        (active p \<longleftrightarrow> P \<in> flush_project ` set (running h)))"

definition handler_inv :: "handler \<Rightarrow> bool" where
  "handler_inv h \<longleftrightarrow> stores_ok h \<and> flights_ok h"

text \<open>
  What one project shows of the handler: its flag, its pending list, the batches extracted
  for it and the number of its suspended flushes; and what a tick does to that, with \<open>inst\<close>
  telling whether \<^verbatim>\<open>this.projects\<close> has the project.
\<close>

definition flushable :: "handler \<Rightarrow> string \<Rightarrow> bool" where
  "flushable h P \<longleftrightarrow> \<not> is_active h P \<and> pending_list h P \<noteq> []"

definition project_view ::
  "handler \<Rightarrow> string \<Rightarrow> bool \<times> push list \<times> push list list \<times> push list list" where
  "project_view h P = (is_active h P, pending_list h P, batches h P, in_flight_batches h P)"

definition flush_view ::
  "bool \<Rightarrow> bool \<times> push list \<times> push list list \<times> push list list \<Rightarrow>
     bool \<times> push list \<times> push list list \<times> push list list" where
  "flush_view inst v =
     (case v of (a, pl, bs, k) \<Rightarrow>
        if \<not> a \<and> pl \<noteq> [] then (inst, [], bs @ [pl], if inst then k @ [pl] else k) else v)"


section \<open>Example inputs\<close>

text \<open>
  A task whose symbol is the number 7, the same task with tier 0, a failed first run with its
  rerun, the same rerun as a first run, a canceled run that an exception created, a run
  that ended when its worker shut down, library functions and collaborators with fixed answers, the jobs expected for the
  task \<^verbatim>\<open>abc\<close>, and events of the handler for two projects, of which only \<^verbatim>\<open>try\<close> has a
  client.
\<close>

definition example_decode :: "string \<Rightarrow> string" where
  "example_decode slug = ''uuid-'' @ slug"

definition example_library :: library where
  "example_library =
     \<lparr>slugid_decode = example_decode,
      String_other = (\<lambda>q. if q = 10 ^ 21 then ''1e+21'' else ''0.5''),
      joi_to_number = (\<lambda>s. if s = ''2'' then Some 2 else None),
      joi_to_boolean = (\<lambda>s. if s = ''true'' then Some True else if s = ''false'' then Some False else None)\<rparr>"

definition example_task :: task where
  "example_task = \<lparr>workerType = ''b2gtest'', schedulerId = ''task-graph-scheduler'',
                    taskGroupId = Some ''group-1'', metadata_name = ''unit tests'',
                    metadata_owner = ''dev@example.com'', created = 500,
                    extra_treeherder = Some (empty_treeherder\<lparr>symbol := JNum 7\<rparr>)\<rparr>"

definition example_task_tier0 :: task where
  "example_task_tier0 =
     example_task\<lparr>extra_treeherder := Some (empty_treeherder\<lparr>symbol := JStr ''B'', tier := JNum 0\<rparr>)\<rparr>"

text \<open>
  The task with the symbol \<open>10\<^sup>2\<^sup>1\<close>, the tier \<^verbatim>\<open>"2"\<close> and the collection \<^verbatim>\<open>{opt: "true"}\<close>, and
  the task whose \<^verbatim>\<open>build\<close> has \<^verbatim>\<open>os_name\<close> already.
\<close>

definition example_task_converted :: task where
  "example_task_converted =
     example_task\<lparr>extra_treeherder :=
       Some (empty_treeherder\<lparr>symbol := JNum (10 ^ 21), tier := JStr ''2'',
                               collection := Some [(''opt'', JStr ''true''), (''nightly'', JStr ''true'')]\<rparr>)\<rparr>"

definition example_task_os_name :: task where
  "example_task_os_name =
     example_task\<lparr>extra_treeherder :=
       Some (empty_treeherder\<lparr>symbol := JStr ''B'',
                               build := empty_platform\<lparr>os_name := JStr ''linux''\<rparr>\<rparr>)\<rparr>"

definition example_run0 :: run where
  "example_run0 = \<lparr>runId = 0, state = ''failed'', reasonCreated = ''scheduled'',
                    reasonResolved = Some ''failed'', workerId = JStr ''worker-1'',
                    started = Some 1000, resolved = Some 61500\<rparr>"

definition example_run1 :: run where
  "example_run1 = \<lparr>runId = 1, state = ''pending'', reasonCreated = ''rerun'',
                    reasonResolved = None, workerId = JUndefined,
                    started = None, resolved = None\<rparr>"

definition example_run_canceled :: run where
  "example_run_canceled = \<lparr>runId = 0, state = ''exception'', reasonCreated = ''exception'',
                    reasonResolved = Some ''canceled'', workerId = JUndefined,
                    started = None, resolved = Some 61500\<rparr>"

definition example_run_shutdown :: run where
  "example_run_shutdown = \<lparr>runId = 0, state = ''exception'', reasonCreated = ''scheduled'',
                    reasonResolved = Some ''worker-shutdown'', workerId = JStr ''worker-1'',
                    started = Some 1000, resolved = Some 61500\<rparr>"

definition example_pushInfo :: parsedRoute where
  "example_pushInfo = \<lparr>route_project = Some ''try'', route_revision = JUndefined,
                        route_revisionHash = JStr ''abc123''\<rparr>"

definition example_collaborators :: collaborators where
  "example_collaborators =
     \<lparr>lib = example_library,
      queue_buildUrl = (\<lambda>taskId r artifact.
         ''https://queue.example/task/'' @ taskId @ ''/runs/'' @ show_nat r @ ''/artifacts/'' @ artifact),
      queue_task = (\<lambda>taskId. Inr example_task),
      scheduler_inspectTask = (\<lambda>taskGroupId taskId. Inr \<lparr>reruns = 2\<rparr>),
      parseRoute = (\<lambda>route. \<lparr>route_project = Some ''try'', route_revision = JUndefined,
                               route_revisionHash = JUndefined\<rparr>),
      taskPending_exchange = ''exchange/taskcluster-queue/v1/task-pending'',
      taskRunning_exchange = ''exchange/taskcluster-queue/v1/task-running'',
      taskCompleted_exchange = ''exchange/taskcluster-queue/v1/task-completed'',
      taskFailed_exchange = ''exchange/taskcluster-queue/v1/task-failed'',
      taskException_exchange = ''exchange/taskcluster-queue/v1/task-exception''\<rparr>"

definition example_payload_rerun :: payload where
  "example_payload_rerun = \<lparr>payload_runId = 1, status_taskId = ''abc'',
                              status_runs = [example_run0, example_run1]\<rparr>"

definition example_payload_pending :: payload where
  "example_payload_pending = \<lparr>payload_runId = 0, status_taskId = ''abc'',
                              status_runs = [example_run1\<lparr>runId := 0, reasonCreated := ''scheduled''\<rparr>]\<rparr>"

definition example_payload_failed :: payload where
  "example_payload_failed = \<lparr>payload_runId = 1, status_taskId = ''abc'',
                              status_runs = [example_run0, example_run0\<lparr>runId := 1\<rparr>]\<rparr>"

definition example_payload_exception :: payload where
  "example_payload_exception = \<lparr>payload_runId = 0, status_taskId = ''abc'',
                              status_runs = [example_run_canceled]\<rparr>"

definition example_payload_shutdown :: payload where
  "example_payload_shutdown = \<lparr>payload_runId = 0, status_taskId = ''abc'',
                              status_runs = [example_run_shutdown]\<rparr>"

definition example_message_no_route :: message where
  "example_message_no_route =
     \<lparr>message_payload = example_payload_rerun,
      exchange = ''exchange/taskcluster-queue/v1/task-pending'',
      routes = [''index.gecko.v1'', ''notify.email'']\<rparr>"

definition example_message_no_revision :: message where
  "example_message_no_revision =
     \<lparr>message_payload = example_payload_rerun,
      exchange = ''exchange/taskcluster-queue/v1/task-pending'',
      routes = [''index.gecko.v1'', ''tc-treeherder.try'']\<rparr>"

definition example_job :: "string \<Rightarrow> job" where
  "example_job guid =
     \<lparr>job_guid = guid, build_system_type = ''taskcluster'',
      build_platform = \<lparr>platform = JStr ''b2gtest'', os = JUndefined, os_name = JStr ''-'',
                        architecture = JStr ''-''\<rparr>,
      machine_platform = \<lparr>platform = JStr ''b2gtest'', os = JUndefined, os_name = JStr ''-'',
                          architecture = JStr ''-''\<rparr>,
      job_machine = JUndefined, name = ''unit tests'', reason = ''scheduled'',
      job_symbol = JStr ''7'', submit_timestamp = 0, start_timestamp = None,
      end_timestamp = None, who = ''dev@example.com'', option_collection = [(''opt'', JBool True)],
      group_name = Some (JStr ''unknown''), group_symbol = Some (JStr ''?''),
      product_name = None, job_tier = Some (JNum 1), artifacts = [],
      job_state = Some ''pending'', result = Some ''unknown'', log_references = None\<rparr>"

text \<open>
  The job of the task \<^verbatim>\<open>abc\<close> with \<open>example_task\<close>, for the run whose index is written
  \<open>index\<close>, with the worker, the timestamps, the state, the result and the log references
  given.
\<close>

definition example_job_abc ::
  "string \<Rightarrow> jsval \<Rightarrow> int option \<Rightarrow> int option \<Rightarrow> string option \<Rightarrow> string option \<Rightarrow>
   log_reference list option \<Rightarrow> job" where
  "example_job_abc index worker started_at ended_at st res logs =
     \<lparr>job_guid = ''uuid-abc/'' @ index, build_system_type = ''taskcluster'',
      build_platform = \<lparr>platform = JStr ''b2gtest'', os = JUndefined, os_name = JStr ''-'',
                        architecture = JStr ''-''\<rparr>,
      machine_platform = \<lparr>platform = JStr ''b2gtest'', os = JUndefined, os_name = JStr ''-'',
                          architecture = JStr ''-''\<rparr>,
      job_machine = worker, name = ''unit tests'', reason = ''scheduled'',
      job_symbol = JStr ''7'', submit_timestamp = 0, start_timestamp = started_at,
      end_timestamp = ended_at, who = ''dev@example.com'', option_collection = [(''opt'', JBool True)],
      group_name = Some (JStr ''unknown''), group_symbol = Some (JStr ''?''),
      product_name = None, job_tier = Some (JNum 1),
      artifacts =
        [\<lparr>artifact_type = ''json'', artifact_name = ''Job Info'',
          blob_job_details =
            [\<lparr>url = ''https://tools.taskcluster.net/task-inspector/#abc/'' @ index,
              detail_value = ''Inspect Task'', content_type = ''link'', title = ''Inspect Task''\<rparr>]\<rparr>],
      job_state = st, result = res, log_references = logs\<rparr>"

definition example_push :: "string \<Rightarrow> string \<Rightarrow> push" where
  "example_push projectName guid =
     \<lparr>push_revision_hash = JStr ''abc123'', push_revision = JUndefined,
      project = projectName, job = example_job guid\<rparr>"

definition example_events :: "event list" where
  "example_events =
     [CallGetProject ''try'',
      CallAddPush (example_push ''try'' ''a/0''),
      CallAddPush (example_push ''mozilla-central'' ''b/0''),
      CallAddPush (example_push ''try'' ''c/0'')]"

definition example_events_in_flight :: "event list" where
  "example_events_in_flight =
     example_events @ [Tick, CallAddPush (example_push ''try'' ''d/0'')]"



section \<open>Decimal strings are injective and have no slash\<close>

lemma of_char_digit_char: "d < 10 \<Longrightarrow> (of_char (digit_char d) :: nat) = 48 + d"
  by (simp add: digit_char_def)

lemma digit_char_neq_slash: "d < 10 \<Longrightarrow> digit_char d \<noteq> CHR ''/''"
proof
  assume d: "d < 10" and "digit_char d = CHR ''/''"
  then have "(of_char (digit_char d) :: nat) = of_char (CHR ''/'')" by simp
  with d show False by (simp add: of_char_digit_char)
qed



lemma show_nat_no_slash: "CHR ''/'' \<notin> set (show_nat n)"
proof (induction n rule: show_nat.induct)
  case (1 n)
  show ?case
  proof (cases "n < 10")
    case True
    then show ?thesis using digit_char_neq_slash[of n] by (subst show_nat.simps) auto
  next
    case False
    then have "CHR ''/'' \<notin> set (show_nat (n div 10))" using 1 by simp
    moreover have "digit_char (n mod 10) \<noteq> CHR ''/''" by (rule digit_char_neq_slash) simp
    ultimately show ?thesis using False by (subst show_nat.simps) auto
  qed
qed





section \<open>What a successful validation guarantees\<close>




text \<open>
  The validation converts the tier \<^verbatim>\<open>"2"\<close> and the known key \<^verbatim>\<open>opt: "true"\<close> of the
  collection, leaves the unknown key alone, and refuses a \<^verbatim>\<open>build\<close> that has \<^verbatim>\<open>os_name\<close>.
\<close>

lemma jobFromTask_converts:
  "jobFromTask example_library ''abc'' example_task_converted example_run0 =
     Inr ((example_job_abc ''0'' (JStr ''worker-1'') (Some 1) (Some 61) None None None)
            \<lparr>job_symbol := JStr ''1e+21'',
             option_collection := [(''opt'', JBool True), (''nightly'', JStr ''true'')],
             job_tier := Some (JNum 2)\<rparr>)"
  by code_simp

lemma jobFromTask_refuses_os_name:
  "jobFromTask example_library ''abc'' example_task_os_name example_run0 =
     Inl (Error ''build cannot rename os: os_name exists'')"
  by code_simp




section \<open>The fields after each operation\<close>

declare map_of_eq_Some_iff [simp del]

lemma map_fst_map_entry: "map fst (AList.map_entry k f al) = map fst al"
  by (induction al) auto

lemma map_of_map_entry': "map_of (AList.map_entry k f al) = (map_of al)(k := map_option f (map_of al k))"
  by (rule ext) (simp add: map_of_map_entry split: option.splits)

lemma settle_fields:
  "projects (settle f outcome h) = projects h"
  "arrays (settle f outcome h) = arrays h"
  "running (settle f outcome h) = running h"
  "flush_log (settle f outcome h) = flush_log h"
  "length (promises (settle f outcome h)) = length (promises h)"
  "map fst (pendingPushes (settle f outcome h)) = map fst (pendingPushes h)"
  "map_of (pendingPushes (settle f outcome h)) =
     (map_of (pendingPushes h))(flush_project f :=
        map_option (\<lambda>p. p\<lparr>active := False\<rparr>) (map_of (pendingPushes h) (flush_project f)))"
  by (simp_all add: settle_def map_fst_map_entry map_of_map_entry')

lemma pending_overwritten:
  "q\<lparr>active := c, promise := a, pushes := b\<rparr> = \<lparr>promise = a, pushes = b, active = c\<rparr>"
  "q\<lparr>promise := a, pushes := b, active := c\<rparr> = \<lparr>promise = a, pushes = b, active = c\<rparr>"
  by (cases q, simp)+

lemma tryPush_fields:
  "projects (tryPush n p h) = projects h"
  "arrays (tryPush n p h) = arrays h @ [ [] ]"
  "length (promises (tryPush n p h)) = Suc (length (promises h))"
  "flush_log (tryPush n p h) =
     flush_log h @ [\<lparr>flush_project = n, flush_pushes = pushes p, flush_promise = promise p\<rparr>]"
  "running (tryPush n p h) =
     (if n \<in> set (projects h)
      then running h @ [\<lparr>flush_project = n, flush_pushes = pushes p, flush_promise = promise p\<rparr>]
      else running h)"
  "map fst (pendingPushes (tryPush n p h)) = map fst (pendingPushes h)"
  "map_of (pendingPushes (tryPush n p h)) =
     (map_of (pendingPushes h))(n :=
        map_option (\<lambda>q. \<lparr>promise = length (promises h), pushes = length (arrays h),
                          active = (n \<in> set (projects h))\<rparr>) (map_of (pendingPushes h) n))"
  by (auto simp add: tryPush_def Let_def settle_fields map_fst_map_entry map_of_map_entry' fun_eq_iff
      option.map_comp comp_def pending_overwritten)

lemma addPush_fields:
  "projects (snd (addPush x h)) = projects h"
  "running (snd (addPush x h)) = running h"
  "flush_log (snd (addPush x h)) = flush_log h"
  by (simp_all add: addPush_def array_push_def Let_def split: option.splits)


section \<open>The stores stay consistent\<close>

lemma addPush_Some:
  "map_of (pendingPushes h) (project x) = Some p \<Longrightarrow>
   addPush x h = (promise p, h\<lparr>arrays := (arrays h)[pushes p := arrays h ! pushes p @ [x] ]\<rparr>)"
  by (simp add: addPush_def array_push_def)

lemma addPush_None:
  "map_of (pendingPushes h) (project x) = None \<Longrightarrow>
   addPush x h =
     (length (promises h),
      h\<lparr>pendingPushes := pendingPushes h @
            [(project x, \<lparr>promise = length (promises h), pushes = length (arrays h), active = False\<rparr>)],
        promises := promises h @ [Unsettled],
        arrays := arrays h @ [ [x] ]\<rparr>)"
  by (simp add: addPush_def array_push_def Let_def)

lemma map_of_snoc:
  "map_of al k = None \<Longrightarrow> map_of (al @ [(k, v)]) = (map_of al)(k \<mapsto> v)"
  by (rule ext) (auto simp: map_add_def split: option.splits)

lemma stores_okI:
  assumes "\<And>P p. map_of (pendingPushes h) P = Some p \<Longrightarrow> pushes p < length (arrays h)"
    and "\<And>P p. map_of (pendingPushes h) P = Some p \<Longrightarrow> promise p < length (promises h)"
    and "\<And>P Q p q. map_of (pendingPushes h) P = Some p \<Longrightarrow> map_of (pendingPushes h) Q = Some q \<Longrightarrow>
           P \<noteq> Q \<Longrightarrow> pushes p \<noteq> pushes q"
    and "\<And>P Q p q. map_of (pendingPushes h) P = Some p \<Longrightarrow> map_of (pendingPushes h) Q = Some q \<Longrightarrow>
           P \<noteq> Q \<Longrightarrow> promise p \<noteq> promise q"
    and "\<And>f. f \<in> set (flush_log h) \<Longrightarrow> flush_pushes f < length (arrays h)"
    and "\<And>f. f \<in> set (flush_log h) \<Longrightarrow> flush_promise f < length (promises h)"
    and "\<And>P p f. map_of (pendingPushes h) P = Some p \<Longrightarrow> f \<in> set (flush_log h) \<Longrightarrow>
           pushes p \<noteq> flush_pushes f"
    and "\<And>P p f. map_of (pendingPushes h) P = Some p \<Longrightarrow> f \<in> set (flush_log h) \<Longrightarrow>
           promise p \<noteq> flush_promise f"
  shows "stores_ok h"
  unfolding stores_ok_def using assms by blast

lemma stores_okD:
  assumes "stores_ok h"
  shows "\<And>P p. map_of (pendingPushes h) P = Some p \<Longrightarrow> pushes p < length (arrays h)"
    and "\<And>P p. map_of (pendingPushes h) P = Some p \<Longrightarrow> promise p < length (promises h)"
    and "\<And>P Q p q. map_of (pendingPushes h) P = Some p \<Longrightarrow> map_of (pendingPushes h) Q = Some q \<Longrightarrow>
           P \<noteq> Q \<Longrightarrow> pushes p \<noteq> pushes q"
    and "\<And>P Q p q. map_of (pendingPushes h) P = Some p \<Longrightarrow> map_of (pendingPushes h) Q = Some q \<Longrightarrow>
           P \<noteq> Q \<Longrightarrow> promise p \<noteq> promise q"
    and "\<And>f. f \<in> set (flush_log h) \<Longrightarrow> flush_pushes f < length (arrays h)"
    and "\<And>f. f \<in> set (flush_log h) \<Longrightarrow> flush_promise f < length (promises h)"
    and "\<And>P p f. map_of (pendingPushes h) P = Some p \<Longrightarrow> f \<in> set (flush_log h) \<Longrightarrow>
           pushes p \<noteq> flush_pushes f"
    and "\<And>P p f. map_of (pendingPushes h) P = Some p \<Longrightarrow> f \<in> set (flush_log h) \<Longrightarrow>
           promise p \<noteq> flush_promise f"
  using assms unfolding stores_ok_def by blast+

lemma stores_ok_new: "stores_ok new_handler"
  by (simp add: stores_ok_def new_handler_def)

lemma stores_ok_getProject: "stores_ok h \<Longrightarrow> stores_ok (getProject n h)"
  by (simp add: stores_ok_def getProject_def)

lemma stores_ok_addPush: 
  assumes ok: "stores_ok h" shows "stores_ok (snd (addPush x h))"
proof (cases "map_of (pendingPushes h) (project x)")
  case None
  note D = stores_okD[OF ok]
  note [simp] = map_of_snoc[OF None] less_Suc_eq
  show ?thesis 
    unfolding addPush_None[OF None] snd_conv
  proof (rule stores_okI, goal_cases)
    case (1 P p) then show ?case using D(1)[of P p] by (auto split: if_splits)
  next
    case (2 P p) then show ?case using D(2)[of P p] by (auto split: if_splits)
  next
    case (3 P Q p q) then show ?case using D(3)[of P p Q q] D(1)[of P p] D(1)[of Q q]
      by (auto split: if_splits)
  next
    case (4 P Q p q) then show ?case using D(4)[of P p Q q] D(2)[of P p] D(2)[of Q q]
      by (auto split: if_splits)
  next
    case (5 f) then show ?case using D(5)[of f] by auto
  next
    case (6 f) then show ?case using D(6)[of f] by auto
  next
    case (7 P p f) then show ?case using D(7)[of P p f] D(5)[of f] by (auto split: if_splits)
  next
    case (8 P p f) then show ?case using D(8)[of P p f] D(6)[of f] by (auto split: if_splits)
  qed
next
  case (Some p)
  show ?thesis using ok unfolding stores_ok_def
    by (simp add: addPush_Some[OF Some])
qed

lemma stores_ok_settle:
  assumes ok: "stores_ok h" shows "stores_ok (settle f outcome h)"
proof -
  note D = stores_okD[OF ok]
  note [simp] = settle_fields
  show ?thesis
  proof (rule stores_okI, goal_cases)
    case (1 P p) then show ?case using D(1)[of P] by (auto split: if_splits)
  next
    case (2 P p) then show ?case using D(2)[of P] by (auto split: if_splits)
  next
    case (3 P Q p q) then show ?case using D(3)[of P _ Q] by (auto split: if_splits)
  next
    case (4 P Q p q) then show ?case using D(4)[of P _ Q] by (auto split: if_splits)
  next
    case (5 f) then show ?case using D(5)[of f] by auto
  next
    case (6 f) then show ?case using D(6)[of f] by auto
  next
    case (7 P p f) then show ?case using D(7)[of P _ f] by (auto split: if_splits)
  next
    case (8 P p f) then show ?case using D(8)[of P _ f] by (auto split: if_splits)
  qed
qed

lemma stores_ok_running_update: "stores_ok (h\<lparr>running := r\<rparr>) = stores_ok h"
  by (simp add: stores_ok_def)

lemma stores_ok_tryPush_resume: "stores_ok h \<Longrightarrow> stores_ok (tryPush_resume i outcome h)"
  unfolding tryPush_resume_def
  by (simp add: stores_ok_settle stores_ok_running_update)

lemma stores_ok_tryPush:
  assumes ok: "stores_ok h" and p: "map_of (pendingPushes h) n = Some p"
  shows "stores_ok (tryPush n p h)"
proof -
  note D = stores_okD[OF ok]
  note [simp] = tryPush_fields less_Suc_eq
  show ?thesis
  proof (rule stores_okI, goal_cases)
    case (1 P q) then show ?case using D(1)[of P] by (auto split: if_splits)
  next
    case (2 P q) then show ?case using D(2)[of P] by (auto split: if_splits)
  next
    case (3 P Q p q) then show ?case using D(3)[of P _ Q] D(1)[of P] D(1)[of Q] by (auto split: if_splits)
  next
    case (4 P Q p q) then show ?case using D(4)[of P _ Q] D(2)[of P] D(2)[of Q] by (auto split: if_splits)
  next
    case (5 f) then show ?case using D(5)[of f] D(1)[OF p] by auto
  next
    case (6 f) then show ?case using D(6)[of f] D(2)[OF p] by auto
  next
    case (7 P q f) then show ?case using D(7)[of P _ f] D(5)[of f] D(1)[OF p] D(3)[of P _ n, OF _ p] by (auto split: if_splits)
  next
    case (8 P q f) then show ?case using D(8)[of P _ f] D(6)[of f] D(2)[OF p] D(4)[of P _ n, OF _ p] by (auto split: if_splits)
  qed
qed

lemma stores_ok_check_project: "stores_ok h \<Longrightarrow> stores_ok (check_project h n)"
  unfolding check_project_def by (auto split: option.splits intro: stores_ok_tryPush)


section \<open>The flushes stay consistent\<close>

lemma flights_okI:
  assumes "distinct (map fst (pendingPushes h))"
    and "set (running h) \<subseteq> set (flush_log h)"
    and "distinct (map flush_project (running h))"
    and "\<And>f. f \<in> set (running h) \<Longrightarrow> \<exists>p. map_of (pendingPushes h) (flush_project f) = Some p"
    and "\<And>P p. map_of (pendingPushes h) P = Some p \<Longrightarrow>
           active p \<longleftrightarrow> P \<in> flush_project ` set (running h)"
  shows "flights_ok h"
  unfolding flights_ok_def using assms by blast

lemma flights_okD:
  assumes "flights_ok h"
  shows "distinct (map fst (pendingPushes h))"
    and "set (running h) \<subseteq> set (flush_log h)"
    and "distinct (map flush_project (running h))"
    and "\<And>f. f \<in> set (running h) \<Longrightarrow> \<exists>p. map_of (pendingPushes h) (flush_project f) = Some p"
    and "\<And>P p. map_of (pendingPushes h) P = Some p \<Longrightarrow>
           active p \<longleftrightarrow> P \<in> flush_project ` set (running h)"
  using assms unfolding flights_ok_def by blast+

lemma flights_ok_new: "flights_ok new_handler"
  by (simp add: flights_ok_def new_handler_def)

lemma flights_ok_getProject: "flights_ok h \<Longrightarrow> flights_ok (getProject n h)"
  unfolding flights_ok_def getProject_def by simp

lemma flights_ok_addPush:
  assumes ok: "flights_ok h" shows "flights_ok (snd (addPush x h))"
proof (cases "map_of (pendingPushes h) (project x)")
  case None
  note D = flights_okD[OF ok]
  have nr: "\<And>f. f \<in> set (running h) \<Longrightarrow> flush_project f \<noteq> project x"
    using D(4) None by fastforce
  have nk: "project x \<notin> fst ` set (pendingPushes h)"
    using None by (simp add: map_of_eq_None_iff)
  note [simp] = map_of_snoc[OF None]
  show ?thesis
    unfolding addPush_None[OF None] snd_conv
  proof (rule flights_okI, goal_cases)
    case 1 show ?case using D(1) nk by simp
  next
    case 2 show ?case using D(2) by simp
  next
    case 3 show ?case using D(3) by simp
  next
    case (4 f) then show ?case using D(4)[of f] by auto
  next
    case (5 P p) then show ?case using D(5)[of P p] nr by (auto split: if_splits simp: image_iff)
  qed
next
  case (Some p)
  show ?thesis using ok unfolding flights_ok_def
    by (simp add: addPush_Some[OF Some])
qed

lemma remove_nth_image:
  assumes "i < length r" "distinct (map g r)"
  shows "g ` set (take i r @ drop (Suc i) r) = g ` set r - {g (r ! i)}"
proof -
  have r: "r = take i r @ (r ! i) # drop (Suc i) r" using assms(1) by (simp add: id_take_nth_drop)
  have "distinct (map g (take i r @ (r ! i) # drop (Suc i) r))" using assms(2) r by simp
  then have "g (r ! i) \<notin> g ` set (take i r @ drop (Suc i) r)" by auto
  moreover have "g ` set r = insert (g (r ! i)) (g ` set (take i r @ drop (Suc i) r))"
    by (subst r) auto
  ultimately show ?thesis by auto
qed

lemma remove_nth_distinct':
  assumes "distinct xs"
  shows "distinct (take i xs @ drop (Suc i) xs)"
proof -
  have d: "distinct (take i xs @ drop i xs)" using assms by simp
  have sub: "set (drop (Suc i) xs) \<subseteq> set (drop i xs)"
    by (rule set_drop_subset_set_drop) simp
  from d have "set (take i xs) \<inter> set (drop i xs) = {}" by (simp only: distinct_append)
  with sub have "set (take i xs) \<inter> set (drop (Suc i) xs) = {}" by blast
  moreover have "distinct (take i xs)" "distinct (drop (Suc i) xs)" using assms by simp_all
  ultimately show ?thesis by (simp only: distinct_append simp_thms)
qed

lemma remove_nth_distinct:
  assumes "distinct (map g r)"
  shows "distinct (map g (take i r @ drop (Suc i) r))"
  using remove_nth_distinct'[OF assms, of i] by (simp add: take_map drop_map)

lemma flights_ok_tryPush_resume:
  assumes ok: "flights_ok h" shows "flights_ok (tryPush_resume i outcome h)"
proof (cases "i < length (running h)")
  case False then show ?thesis using ok by (simp add: tryPush_resume_def)
next
  case True
  note D = flights_okD[OF ok]
  define r' where "r' = take i (running h) @ drop (Suc i) (running h)"
  define n where "n = flush_project (running h ! i)"
  have img: "flush_project ` set r' = flush_project ` set (running h) - {n}"
    unfolding r'_def n_def by (rule remove_nth_image[OF True D(3)])
  have sub: "set r' \<subseteq> set (running h)"
    unfolding r'_def using set_take_subset[of i "running h"] set_drop_subset[of "Suc i" "running h"] by auto
  have eq: "tryPush_resume i outcome h = settle (running h ! i) outcome (h\<lparr>running := r'\<rparr>)"
    using True by (simp add: tryPush_resume_def r'_def)
  note [simp] = settle_fields
  show ?thesis unfolding eq
  proof (rule flights_okI, goal_cases)
    case 1 show ?case using D(1) by simp
  next
    case 2 show ?case using D(2) sub by auto
  next
    case 3 show ?case using remove_nth_distinct[OF D(3), of i] by (simp add: r'_def)
  next
    case (4 f) then show ?case using D(4)[of f] sub by (auto simp: n_def[symmetric])
  next
    case (5 P p) then show ?case using D(5)[of P] img by (auto simp: n_def[symmetric] split: if_splits)
  qed
qed

lemma flights_ok_tryPush:
  assumes ok: "flights_ok h" and p: "map_of (pendingPushes h) n = Some p" and na: "\<not> active p"
  shows "flights_ok (tryPush n p h)"
proof -
  note D = flights_okD[OF ok]
  have nr: "\<And>f. f \<in> set (running h) \<Longrightarrow> flush_project f \<noteq> n"
    using D(5)[OF p] na by auto
  note [simp] = tryPush_fields
  show ?thesis
  proof (rule flights_okI, goal_cases)
    case 1 show ?case using D(1) by simp
  next
    case 2 show ?case using D(2) by auto
  next
    case 3 show ?case using D(3) nr by (auto simp: image_iff)
  next
    case (4 f) then show ?case using D(4)[of f] p by (auto split: if_splits)
  next
    case (5 P q) then show ?case using D(5)[of P] nr p by (auto simp: image_iff split: if_splits)
  qed
qed

lemma flights_ok_check_project: "flights_ok h \<Longrightarrow> flights_ok (check_project h n)"
  unfolding check_project_def by (auto split: option.splits intro: flights_ok_tryPush)


section \<open>Every reachable state is consistent; what a tick does\<close>

lemma handler_inv_check_project: "handler_inv h \<Longrightarrow> handler_inv (check_project h n)"
  by (simp add: handler_inv_def stores_ok_check_project flights_ok_check_project)

lemma handler_inv_foldl: "handler_inv h \<Longrightarrow> handler_inv (foldl check_project h ks)"
  by (induction ks arbitrary: h) (simp_all add: handler_inv_check_project)

lemma handler_inv_step: "handler_inv h \<Longrightarrow> handler_inv (step h e)"
  by (cases e)
    (simp_all add: handler_inv_def stores_ok_getProject flights_ok_getProject stores_ok_addPush
      flights_ok_addPush stores_ok_tryPush_resume flights_ok_tryPush_resume check_def
      handler_inv_foldl[unfolded handler_inv_def])

lemma handler_inv_foldl_step: "handler_inv h \<Longrightarrow> handler_inv (foldl step h evs)"
  by (induction evs arbitrary: h) (simp_all add: handler_inv_step)

lemma handler_inv_run_events: "handler_inv (run_events evs)"
  unfolding run_events_def
  by (rule handler_inv_foldl_step) (simp add: handler_inv_def stores_ok_new flights_ok_new)

lemma batches_cong:
  assumes "flush_log h' = flush_log h"
    and "\<And>f. f \<in> set (flush_log h) \<Longrightarrow> arrays h' ! flush_pushes f = arrays h ! flush_pushes f"
  shows "batches h' P = batches h P"
  unfolding batches_def using assms by (auto intro!: map_cong)

lemma tryPush_view:
  assumes inv: "handler_inv h" and p: "map_of (pendingPushes h) n = Some p"
  shows "pending_list (tryPush n p h) P = (if P = n then [] else pending_list h P)"
    and "batches (tryPush n p h) P = (if P = n then batches h P @ [pending_list h n] else batches h P)"
    and "is_active (tryPush n p h) P = (if P = n then n \<in> set (projects h) else is_active h P)"
    and "in_flight (tryPush n p h) P =
           (if P = n \<and> n \<in> set (projects h)
            then in_flight h P @ [\<lparr>flush_project = n, flush_pushes = pushes p, flush_promise = promise p\<rparr>]
            else in_flight h P)"
    and "in_flight_batches (tryPush n p h) P =
           (if P = n \<and> n \<in> set (projects h)
            then in_flight_batches h P @ [pending_list h n]
            else in_flight_batches h P)"
proof -
  from inv have s: "stores_ok h" and fl: "flights_ok h" by (simp_all add: handler_inv_def)
  note D = stores_okD[OF s]
  note [simp] = tryPush_fields
  show "pending_list (tryPush n p h) P = (if P = n then [] else pending_list h P)"
    using p D(1)[of P] by (auto simp: pending_list_def nth_append split: option.splits)
  have "map (\<lambda>f. (arrays h @ [ [] ]) ! flush_pushes f) (filter (\<lambda>f. flush_project f = P) (flush_log h))
      = map (\<lambda>f. arrays h ! flush_pushes f) (filter (\<lambda>f. flush_project f = P) (flush_log h))"
    using D(5) by (auto intro!: map_cong simp: nth_append)
  then show "batches (tryPush n p h) P = (if P = n then batches h P @ [pending_list h n] else batches h P)"
    using p D(1)[OF p] by (simp add: batches_def pending_list_def nth_append)
  show "is_active (tryPush n p h) P = (if P = n then n \<in> set (projects h) else is_active h P)"
    using p by (simp add: is_active_def)
  show "in_flight (tryPush n p h) P =
           (if P = n \<and> n \<in> set (projects h)
            then in_flight h P @ [\<lparr>flush_project = n, flush_pushes = pushes p, flush_promise = promise p\<rparr>]
            else in_flight h P)"
    by (simp add: in_flight_def)
  have "f \<in> set (running h) \<Longrightarrow> flush_pushes f < length (arrays h)" for f
    using flights_okD(2)[OF fl] D(5) by blast
  then have "map (\<lambda>f. (arrays h @ [ [] ]) ! flush_pushes f) (filter (\<lambda>f. flush_project f = P) (running h))
      = map (\<lambda>f. arrays h ! flush_pushes f) (filter (\<lambda>f. flush_project f = P) (running h))"
    by (auto intro!: map_cong simp: nth_append)
  then show "in_flight_batches (tryPush n p h) P =
           (if P = n \<and> n \<in> set (projects h)
            then in_flight_batches h P @ [pending_list h n]
            else in_flight_batches h P)"
    using p D(1)[OF p] by (simp add: in_flight_batches_def in_flight_def pending_list_def nth_append)
qed

lemma check_project_view_same:
  assumes inv: "handler_inv h"
  shows "project_view (check_project h n) n = flush_view (n \<in> set (projects h)) (project_view h n)"
proof (cases "map_of (pendingPushes h) n")
  case None
  then show ?thesis
    by (simp add: check_project_def project_view_def flush_view_def pending_list_def)
next
  case (Some p)
  show ?thesis
  proof (cases "\<not> active p \<and> arrays h ! pushes p \<noteq> []")
    case True
    then have "check_project h n = tryPush n p h" using Some by (simp add: check_project_def)
    moreover have "\<not> is_active h n" "pending_list h n \<noteq> []"
      using True Some by (simp_all add: is_active_def pending_list_def)
    ultimately show ?thesis
      by (simp add: project_view_def flush_view_def tryPush_view[OF inv Some])
  next
    case False
    then have "check_project h n = h" using Some by (auto simp add: check_project_def)
    moreover have "is_active h n \<or> pending_list h n = []"
      using False Some by (simp_all add: is_active_def pending_list_def)
    ultimately show ?thesis
      by (auto simp add: project_view_def flush_view_def)
  qed
qed

lemma check_project_view_other:
  assumes inv: "handler_inv h" and "P \<noteq> n"
  shows "project_view (check_project h n) P = project_view h P"
  using assms(2)
  by (auto simp add: check_project_def project_view_def tryPush_view[OF inv] split: option.splits)

lemma check_project_projects: "projects (check_project h n) = projects h"
  by (auto simp: check_project_def tryPush_fields split: option.splits)

lemma foldl_check_project_view:
  assumes "handler_inv h" "distinct ks"
  shows "project_view (foldl check_project h ks) P =
           (if P \<in> set ks then flush_view (P \<in> set (projects h)) (project_view h P)
            else project_view h P)"
  using assms
proof (induction ks arbitrary: h)
  case Nil
  then show ?case by simp
next
  case (Cons k ks)
  have inv1: "handler_inv (check_project h k)" using Cons.prems(1) by (rule handler_inv_check_project)
  have d: "distinct ks" "k \<notin> set ks" using Cons.prems(2) by simp_all
  show ?case
  proof (cases "P = k")
    case True
    then show ?thesis using Cons.IH[OF inv1 d(1)] d(2)
      by (simp add: check_project_view_same[OF Cons.prems(1)])
  next
    case False
    then show ?thesis using Cons.IH[OF inv1 d(1)]
      by (simp add: check_project_projects check_project_view_other[OF Cons.prems(1) False])
  qed
qed

lemma check_view:
  assumes inv: "handler_inv h"
  shows "project_view (check h) P = flush_view (P \<in> set (projects h)) (project_view h P)"
proof -
  from inv have d: "distinct (map fst (pendingPushes h))"
    by (simp add: handler_inv_def flights_ok_def)
  show ?thesis
  proof (cases "P \<in> set (map fst (pendingPushes h))")
    case True
    then show ?thesis unfolding check_def foldl_check_project_view[OF inv d] by simp
  next
    case False
    then have "map_of (pendingPushes h) P = None" by (simp add: map_of_eq_None_iff)
    then have "pending_list h P = []" by (simp add: pending_list_def)
    then show ?thesis using False unfolding check_def foldl_check_project_view[OF inv d]
      by (simp add: flush_view_def project_view_def)
  qed
qed


section \<open>What \<^verbatim>\<open>addPush\<close> changes\<close>

lemma addPush_None_view:
  assumes s: "stores_ok h" and None: "map_of (pendingPushes h) (project x) = None"
  shows "pending_list (snd (addPush x h)) P = pending_list h P @ (if project x = P then [x] else [])"
    and "\<And>f. f \<in> set (flush_log h) \<Longrightarrow>
           arrays (snd (addPush x h)) ! flush_pushes f = arrays h ! flush_pushes f"
    and "\<And>f. f \<in> set (flush_log h) \<Longrightarrow> fst (addPush x h) \<noteq> flush_promise f"
    and "is_active (snd (addPush x h)) P = is_active h P"
    and "\<exists>p. map_of (pendingPushes (snd (addPush x h))) (project x) = Some p \<and>
           fst (addPush x h) = promise p"
proof -
  note D = stores_okD[OF s]
  note m = map_of_snoc[OF None]
  note eq = addPush_None[OF None]
  show "pending_list (snd (addPush x h)) P = pending_list h P @ (if project x = P then [x] else [])"
  proof (cases "project x = P")
    case True
    have "pending_list (snd (addPush x h)) (project x) = pending_list h (project x) @ [x]"
      using None by (simp add: eq m pending_list_def del: map_of_append)
    then show ?thesis using True by simp
  next
    case False
    show ?thesis
    proof (cases "map_of (pendingPushes h) P")
      case None
      then show ?thesis using False by (simp add: eq m pending_list_def del: map_of_append)
    next
      case (Some q)
      then show ?thesis using False D(1)[OF Some]
        by (simp add: eq m pending_list_def nth_append del: map_of_append)
    qed
  qed
  show "\<And>f. f \<in> set (flush_log h) \<Longrightarrow>
           arrays (snd (addPush x h)) ! flush_pushes f = arrays h ! flush_pushes f"
    using D(5) by (simp add: eq nth_append)
  show "\<And>f. f \<in> set (flush_log h) \<Longrightarrow> fst (addPush x h) \<noteq> flush_promise f"
    using D(6) by (fastforce simp add: eq)
  show "is_active (snd (addPush x h)) P = is_active h P"
    using None by (cases "P = project x") (simp_all add: eq m is_active_def del: map_of_append)
  show "\<exists>p. map_of (pendingPushes (snd (addPush x h))) (project x) = Some p \<and>
           fst (addPush x h) = promise p"
    by (simp add: eq m del: map_of_append)
qed

lemma addPush_Some_view:
  assumes s: "stores_ok h" and Some: "map_of (pendingPushes h) (project x) = Some p"
  shows "pending_list (snd (addPush x h)) P = pending_list h P @ (if project x = P then [x] else [])"
    and "\<And>f. f \<in> set (flush_log h) \<Longrightarrow>
           arrays (snd (addPush x h)) ! flush_pushes f = arrays h ! flush_pushes f"
    and "\<And>f. f \<in> set (flush_log h) \<Longrightarrow> fst (addPush x h) \<noteq> flush_promise f"
    and "is_active (snd (addPush x h)) P = is_active h P"
    and "\<exists>p. map_of (pendingPushes (snd (addPush x h))) (project x) = Some p \<and>
           fst (addPush x h) = promise p"
proof -
  note D = stores_okD[OF s]
  note eq = addPush_Some[OF Some]
  show "pending_list (snd (addPush x h)) P = pending_list h P @ (if project x = P then [x] else [])"
  proof (cases "project x = P")
    case True
    have "pending_list (snd (addPush x h)) (project x) = pending_list h (project x) @ [x]"
      using Some D(1)[OF Some] by (simp add: eq pending_list_def)
    then show ?thesis using True by simp
  next
    case False
    show ?thesis
    proof (cases "map_of (pendingPushes h) P")
      case None
      then show ?thesis using False by (simp add: eq pending_list_def)
    next
      case (Some q)
      have "pushes p \<noteq> pushes q" using D(3)[OF \<open>map_of (pendingPushes h) (project x) = Some p\<close> Some False] .
      then show ?thesis using False Some by (simp add: eq pending_list_def)
    qed
  qed
  show "\<And>f. f \<in> set (flush_log h) \<Longrightarrow>
           arrays (snd (addPush x h)) ! flush_pushes f = arrays h ! flush_pushes f"
  proof -
    fix f assume "f \<in> set (flush_log h)"
    then have "pushes p \<noteq> flush_pushes f" using D(7)[OF Some] by simp
    then show "arrays (snd (addPush x h)) ! flush_pushes f = arrays h ! flush_pushes f"
      by (simp add: eq)
  qed
  show "\<And>f. f \<in> set (flush_log h) \<Longrightarrow> fst (addPush x h) \<noteq> flush_promise f"
    using D(8)[OF Some] by (simp add: eq)
  show "is_active (snd (addPush x h)) P = is_active h P"
    by (simp add: eq is_active_def)
  show "\<exists>p. map_of (pendingPushes (snd (addPush x h))) (project x) = Some p \<and>
           fst (addPush x h) = promise p"
    using Some by (simp add: eq)
qed

lemma addPush_view:
  assumes inv: "handler_inv h"
  shows "pending_list (snd (addPush x h)) P = pending_list h P @ (if project x = P then [x] else [])"
    and "batches (snd (addPush x h)) P = batches h P"
    and "is_active (snd (addPush x h)) P = is_active h P"
    and "in_flight (snd (addPush x h)) P = in_flight h P"
    and "\<And>f. f \<in> set (flush_log h) \<Longrightarrow>
           arrays (snd (addPush x h)) ! flush_pushes f = arrays h ! flush_pushes f"
    and "\<And>f. f \<in> set (flush_log h) \<Longrightarrow> fst (addPush x h) \<noteq> flush_promise f"
    and "\<exists>p. map_of (pendingPushes (snd (addPush x h))) (project x) = Some p \<and>
           fst (addPush x h) = promise p"
proof -
  from inv have s: "stores_ok h" by (simp add: handler_inv_def)
  show "pending_list (snd (addPush x h)) P = pending_list h P @ (if project x = P then [x] else [])"
    by (cases "map_of (pendingPushes h) (project x)")
      (simp_all only: addPush_None_view(1)[OF s] addPush_Some_view(1)[OF s])
  show a: "\<And>f. f \<in> set (flush_log h) \<Longrightarrow>
           arrays (snd (addPush x h)) ! flush_pushes f = arrays h ! flush_pushes f"
    by (cases "map_of (pendingPushes h) (project x)")
      (simp_all only: addPush_None_view(2)[OF s] addPush_Some_view(2)[OF s])
  show "\<And>f. f \<in> set (flush_log h) \<Longrightarrow> fst (addPush x h) \<noteq> flush_promise f"
    using addPush_None_view(3)[OF s] addPush_Some_view(3)[OF s]
    by (cases "map_of (pendingPushes h) (project x)") blast+
  show "is_active (snd (addPush x h)) P = is_active h P"
    by (cases "map_of (pendingPushes h) (project x)")
      (simp_all only: addPush_None_view(4)[OF s] addPush_Some_view(4)[OF s])
  show "\<exists>p. map_of (pendingPushes (snd (addPush x h))) (project x) = Some p \<and>
           fst (addPush x h) = promise p"
    using addPush_None_view(5)[OF s] addPush_Some_view(5)[OF s]
    by (cases "map_of (pendingPushes h) (project x)") blast+
  show "batches (snd (addPush x h)) P = batches h P"
    using a by (intro batches_cong) (simp_all add: addPush_fields)
  show "in_flight (snd (addPush x h)) P = in_flight h P"
    by (simp add: in_flight_def addPush_fields)
qed


section \<open>The records of a project are never lost or doubled\<close>

lemma settle_view:
  "pending_list (settle f outcome h) P = pending_list h P"
  "batches (settle f outcome h) P = batches h P"
  "is_active (settle f outcome h) P = (if P = flush_project f then False else is_active h P)"
proof -
  show "pending_list (settle f outcome h) P = pending_list h P"
    by (simp add: pending_list_def settle_fields split: option.splits)
  show "batches (settle f outcome h) P = batches h P"
    by (simp add: batches_def settle_fields)
  show "is_active (settle f outcome h) P = (if P = flush_project f then False else is_active h P)"
    by (simp add: is_active_def settle_fields split: option.splits)
qed

lemma running_update_view:
  "pending_list (h\<lparr>running := r\<rparr>) P = pending_list h P"
  "batches (h\<lparr>running := r\<rparr>) P = batches h P"
  "is_active (h\<lparr>running := r\<rparr>) P = is_active h P"
  by (simp_all add: pending_list_def batches_def is_active_def split: option.splits)

lemma resume_view:
  shows "pending_list (tryPush_resume i outcome h) P = pending_list h P"
    and "batches (tryPush_resume i outcome h) P = batches h P"
    and "arrays (tryPush_resume i outcome h) = arrays h"
    and "flush_log (tryPush_resume i outcome h) = flush_log h"
    and "projects (tryPush_resume i outcome h) = projects h"
    and "i < length (running h) \<Longrightarrow> is_active (tryPush_resume i outcome h) (flush_project (running h ! i)) = False"
  by (simp_all add: tryPush_resume_def settle_view running_update_view settle_fields)

lemma resume_promise:
  "i < length (running h) \<Longrightarrow> flush_promise (running h ! i) < length (promises h) \<Longrightarrow>
     promises (tryPush_resume i outcome h) ! flush_promise (running h ! i) =
       (case outcome of Inr res \<Rightarrow> Accepted res | Inl err \<Rightarrow> Rejected err)"
  by (simp add: tryPush_resume_def settle_def)

lemma getProject_view:
  "pending_list (getProject n h) P = pending_list h P"
  "batches (getProject n h) P = batches h P"
  by (simp_all add: getProject_def pending_list_def batches_def split: option.splits)

lemma contributions_append: "contributions P (evs @ evs') = contributions P evs @ contributions P evs'"
  by (induction P evs rule: contributions.induct) simp_all

lemma check_effect:
  assumes inv: "handler_inv h"
  shows "flushable h P \<Longrightarrow>
           batches (check h) P = batches h P @ [pending_list h P] \<and>
           pending_list (check h) P = [] \<and>
           is_active (check h) P = (P \<in> set (projects h)) \<and>
           in_flight_batches (check h) P =
             (if P \<in> set (projects h) then in_flight_batches h P @ [pending_list h P]
              else in_flight_batches h P)"
    and "\<not> flushable h P \<Longrightarrow>
           batches (check h) P = batches h P \<and>
           pending_list (check h) P = pending_list h P \<and>
           is_active (check h) P = is_active h P \<and>
           in_flight_batches (check h) P = in_flight_batches h P"
  using check_view[OF inv, of P]
  by (simp_all add: project_view_def flush_view_def flushable_def split: if_splits)

lemma history_step:
  assumes inv: "handler_inv h"
  shows "concat (batches (step h e) P) @ pending_list (step h e) P =
         concat (batches h P) @ pending_list h P @ contributions P [e]"
proof (cases e)
  case (CallGetProject n)
  then show ?thesis by (simp add: getProject_view)
next
  case (CallAddPush x)
  then show ?thesis by (simp add: addPush_view[OF inv])
next
  case Tick
  show ?thesis
    using check_effect[OF inv, of P] Tick by (cases "flushable h P") simp_all
next
  case (PostJobsAnswer i outcome)
  then show ?thesis by (simp add: resume_view)
qed

lemma run_events_snoc: "run_events (evs @ [e]) = step (run_events evs) e"
  by (simp add: run_events_def)

lemma history: "concat (batches (run_events evs) P) @ pending_list (run_events evs) P = contributions P evs"
proof (induction evs rule: rev_induct)
  case Nil
  show ?case by (simp add: run_events_def new_handler_def batches_def pending_list_def)
next
  case (snoc e evs)
  show ?case
    unfolding run_events_snoc history_step[OF handler_inv_run_events] contributions_append
    using snoc by simp
qed


section \<open>At most one flush in flight\<close>

lemma resume_in_flight:
  assumes "flights_ok h" "i < length (running h)"
  shows "in_flight (tryPush_resume i outcome h) (flush_project (running h ! i)) = []"
proof -
  define r' where "r' = take i (running h) @ drop (Suc i) (running h)"
  have nmem: "flush_project (running h ! i) \<notin> flush_project ` set r'"
    unfolding r'_def using remove_nth_image[OF assms(2) flights_okD(3)[OF assms(1)] ] by simp
  have ne: "flush_project f \<noteq> flush_project (running h ! i)" if "f \<in> set r'" for f
  proof
    assume e: "flush_project f = flush_project (running h ! i)"
    have "flush_project f \<in> flush_project ` set r'" using that by (rule imageI)
    with e nmem show False by simp
  qed
  have "running (tryPush_resume i outcome h) = r'"
    using assms(2) by (simp add: tryPush_resume_def settle_fields r'_def)
  then show ?thesis using ne
    by (simp add: in_flight_def filter_empty_conv)
qed

lemma distinct_in_singleton:
  assumes "distinct xs" "set xs \<subseteq> {a}"
  shows "length xs \<le> 1"
proof (cases xs)
  case Nil
  then show ?thesis by simp
next
  case (Cons x ys)
  have "set ys \<subseteq> {a}" "x = a" "x \<notin> set ys" using assms Cons by auto
  then have "ys = []" by (cases ys) auto
  then show ?thesis using Cons by simp
qed

lemma in_flight_le_one:
  assumes "flights_ok h"
  shows "length (in_flight h P) \<le> 1"
proof -
  have "distinct (map flush_project (in_flight h P))"
    unfolding in_flight_def using flights_okD(3)[OF assms] by (simp add: distinct_map_filter)
  moreover have "set (map flush_project (in_flight h P)) \<subseteq> {P}"
    by (auto simp: in_flight_def)
  ultimately have "length (map flush_project (in_flight h P)) \<le> 1"
    by (rule distinct_in_singleton)
  then show ?thesis by simp
qed

lemma active_iff_in_flight:
  assumes "flights_ok h"
  shows "is_active h P \<longleftrightarrow> in_flight h P \<noteq> []"
proof (cases "map_of (pendingPushes h) P")
  case None
  have "f \<in> set (running h) \<Longrightarrow> flush_project f \<noteq> P" for f
    using flights_okD(4)[OF assms, of f] None by auto
  then show ?thesis using None by (simp add: is_active_def in_flight_def filter_empty_conv)
next
  case (Some p)
  have "active p \<longleftrightarrow> P \<in> flush_project ` set (running h)" by (rule flights_okD(5)[OF assms Some])
  then show ?thesis using Some
    by (auto simp add: is_active_def in_flight_def filter_empty_conv image_iff)
qed


section \<open>What the handlers hand to \<^verbatim>\<open>addPush\<close>\<close>

lemma contributed_simps:
  "contributed Done outs = []"
  "contributed (Throw e) outs = []"
  "contributed (GetProject n k) outs = contributed k outs"
  "contributed (AwaitPush p k) [] = [p]"
  "contributed (AwaitPush p k) (Inl e # outs) = [p]"
  "contributed (AwaitPush p k) (Inr res # outs) = p # contributed k outs"
  by (simp_all add: contributed_def split: prod.splits)

lemma contributed_one: "contributed (AwaitPush p Done) outcomes = [p]"
proof (cases outcomes)
  case Nil
  then show ?thesis by (simp add: contributed_def)
next
  case (Cons o1 outs)
  then show ?thesis by (cases o1) (simp_all add: contributed_def)
qed

lemma handleTaskRerun_eq:
  assumes "payload_runId pl \<noteq> 0" "nth_opt (status_runs pl) (payload_runId pl - 1) = Some r0"
    "jobFromTask (lib c) (status_taskId pl) t r0 = Inr j0"
  shows "handleTaskRerun c pushInfo t pl =
     AwaitPush (make_push pushInfo
        (j0\<lparr>job_state := Some ''completed'', result := Some ''retry'',
            log_references := Some (createLogReferences (queue_buildUrl c) (status_taskId pl) r0)\<rparr>)) Done"
  using assms by (simp add: handleTaskRerun_def)


section \<open>Extracted batches never change\<close>

lemma check_project_arrays: "\<exists>zs. arrays (check_project h n) = arrays h @ zs"
  by (auto simp: check_project_def tryPush_fields split: option.splits)

lemma foldl_check_project_arrays: "\<exists>zs. arrays (foldl check_project h ks) = arrays h @ zs"
proof (induction ks arbitrary: h)
  case Nil
  show ?case by simp
next
  case (Cons k ks)
  obtain zs where a: "arrays (check_project h k) = arrays h @ zs"
    using check_project_arrays by blast
  obtain ys where "arrays (foldl check_project (check_project h k) ks) = arrays (check_project h k) @ ys"
    using Cons.IH by blast
  with a show ?case by simp
qed

lemma batch_stable:
  assumes inv: "handler_inv h" and f: "f \<in> set (flush_log h)"
  shows "arrays (step h e) ! flush_pushes f = arrays h ! flush_pushes f"
proof (cases e)
  case (CallGetProject n)
  then show ?thesis by (simp add: getProject_def)
next
  case (CallAddPush x)
  then show ?thesis using addPush_view(5)[OF inv f] by simp
next
  case Tick
  from inv have "stores_ok h" by (simp add: handler_inv_def)
  then have "flush_pushes f < length (arrays h)" using f by (rule stores_okD(5))
  moreover obtain zs where "arrays (check h) = arrays h @ zs"
    unfolding check_def using foldl_check_project_arrays by blast
  ultimately show ?thesis using Tick by (simp add: nth_append)
next
  case (PostJobsAnswer i outcome)
  then show ?thesis by (simp add: resume_view)
qed

lemma tryPush_missing_project:
  assumes s: "stores_ok h" and p: "map_of (pendingPushes h) n = Some p" and n: "n \<notin> set (projects h)"
  shows "promises (tryPush n p h) ! promise p =
           Rejected (TypeError ''Cannot read property postJobs of undefined'')"
  using stores_okD(2)[OF s p] n
  by (simp add: tryPush_def Let_def settle_def nth_append)



section \<open>The claims\<close>

text \<open>
  Claim C1. For every project, in every state the handler reaches: the batches extracted by
  \<^verbatim>\<open>tryPush\<close> so far, one after the other, followed by the pending list, are exactly the
  pushes handed to \<^verbatim>\<open>addPush\<close> for the project, in the order of the calls, so no record is in
  two lists or in none; a tick that flushes the project extracts exactly its pending list,
  hands that list to \<^verbatim>\<open>postJobs\<close> and leaves an empty one; \<^verbatim>\<open>addPush\<close> appends to the
  pending list of the project and returns the promise that goes with that list, which is the
  promise of no batch extracted before; and no event, \<^verbatim>\<open>addPush\<close> included, changes the
  array of an extracted batch.
\<close>

theorem batching_atomicity:
  "let h = run_events evs in
     (\<forall>P. concat (batches h P) @ pending_list h P = contributions P evs) \<and>
     (\<forall>P. \<not> is_active h P \<and> pending_list h P \<noteq> [] \<longrightarrow>
        batches (check h) P = batches h P @ [pending_list h P] \<and> pending_list (check h) P = [] \<and>
        (P \<in> set (projects h) \<longrightarrow> in_flight_batches (check h) P = [pending_list h P])) \<and>
     (\<forall>x. pending_list (snd (addPush x h)) (project x) = pending_list h (project x) @ [x] \<and>
          (\<exists>p. map_of (pendingPushes (snd (addPush x h))) (project x) = Some p \<and>
               fst (addPush x h) = promise p) \<and>
          (\<forall>f \<in> set (flush_log h). fst (addPush x h) \<noteq> flush_promise f)) \<and>
     (\<forall>e. \<forall>f \<in> set (flush_log h). arrays (step h e) ! flush_pushes f = arrays h ! flush_pushes f)"
proof -
  have inv: "handler_inv (run_events evs)" by (rule handler_inv_run_events)
  then have fl: "flights_ok (run_events evs)" by (simp add: handler_inv_def)
  have e: "in_flight_batches (run_events evs) P = []" if "\<not> is_active (run_events evs) P" for P
    using that active_iff_in_flight[OF fl, of P] by (simp add: in_flight_batches_def)
  show ?thesis
    unfolding Let_def
    using history[of evs] check_effect(1)[OF inv] addPush_view(1,6,7)[OF inv] batch_stable[OF inv] e
    by (simp add: flushable_def)
qed

theorem batching_atomicity_witness:
  "concat (batches (run_events example_events_in_flight) ''try'') @
     pending_list (run_events example_events_in_flight) ''try'' =
     [example_push ''try'' ''a/0'', example_push ''try'' ''c/0'', example_push ''try'' ''d/0''] \<and>
   \<not> is_active (run_events example_events) ''try'' \<and>
   pending_list (run_events example_events) ''try'' \<noteq> [] \<and>
   batches (check (run_events example_events)) ''try'' =
     batches (run_events example_events) ''try'' @ [pending_list (run_events example_events) ''try''] \<and>
   ''try'' \<in> set (projects (run_events example_events)) \<and>
   in_flight_batches (check (run_events example_events)) ''try'' =
     [pending_list (run_events example_events) ''try''] \<and>
   \<lparr>flush_project = ''try'', flush_pushes = 0, flush_promise = 0\<rparr>
      \<in> set (flush_log (run_events example_events_in_flight)) \<and>
   fst (addPush (example_push ''try'' ''e/0'') (run_events example_events_in_flight)) \<noteq> 0 \<and>
   arrays (step (run_events example_events_in_flight) (CallAddPush (example_push ''try'' ''e/0''))) ! 0 =
     arrays (run_events example_events_in_flight) ! 0"
proof -
  have c: "contributions ''try'' example_events_in_flight =
      [example_push ''try'' ''a/0'', example_push ''try'' ''c/0'', example_push ''try'' ''d/0'']"
    by (simp add: example_events_in_flight_def example_events_def example_push_def)
  have e: "\<not> is_active (run_events example_events) ''try'' \<and>
           pending_list (run_events example_events) ''try'' \<noteq> []"
    by code_simp
  have g: "''try'' \<in> set (projects (run_events example_events))"
    by code_simp
  have f: "\<lparr>flush_project = ''try'', flush_pushes = 0, flush_promise = 0\<rparr>
      \<in> set (flush_log (run_events example_events_in_flight))"
    by code_simp
  note A = batching_atomicity[of example_events_in_flight, unfolded Let_def]
  note B = batching_atomicity[of example_events, unfolded Let_def]
  from A have 1: "concat (batches (run_events example_events_in_flight) ''try'') @
     pending_list (run_events example_events_in_flight) ''try'' =
     contributions ''try'' example_events_in_flight" by blast
  from B e have 2: "batches (check (run_events example_events)) ''try'' =
     batches (run_events example_events) ''try'' @ [pending_list (run_events example_events) ''try'']"
    by blast
  from B e g have 5: "in_flight_batches (check (run_events example_events)) ''try'' =
     [pending_list (run_events example_events) ''try'']"
    by blast
  from A f have 3: "fst (addPush (example_push ''try'' ''e/0'') (run_events example_events_in_flight))
      \<noteq> flush_promise \<lparr>flush_project = ''try'', flush_pushes = 0, flush_promise = 0\<rparr>"
    by blast
  from A f have 4: "arrays (step (run_events example_events_in_flight)
         (CallAddPush (example_push ''try'' ''e/0''))) !
       flush_pushes \<lparr>flush_project = ''try'', flush_pushes = 0, flush_promise = 0\<rparr> =
     arrays (run_events example_events_in_flight) !
       flush_pushes \<lparr>flush_project = ''try'', flush_pushes = 0, flush_promise = 0\<rparr>"
    by blast
  show ?thesis
    using 1 2 3 4 5 c e f g by simp
qed

text \<open>
  Claim C2. In every state the handler reaches a project has at most one flush in flight, and
  has one exactly when its \<^verbatim>\<open>active\<close> flag is set. A tick leaves a project alone when the
  flag is set or the pending list is empty: no batch is extracted, the list, the flag and the
  flushes in flight stay. Otherwise the tick extracts the pending list as one new batch, and
  afterwards the one flush in flight of the project is the call of \<^verbatim>\<open>postJobs\<close> with that
  batch (none when \<^verbatim>\<open>this.projects\<close> lacks the project: then the flush has failed at once
  and the flag is cleared again).
\<close>

theorem one_flush_in_flight:
  "let h = run_events evs in
     length (in_flight h P) \<le> 1 \<and>
     (is_active h P \<longleftrightarrow> in_flight h P \<noteq> []) \<and>
     (is_active h P \<or> pending_list h P = [] \<longrightarrow>
        batches (check h) P = batches h P \<and> pending_list (check h) P = pending_list h P \<and>
        is_active (check h) P = is_active h P \<and>
        in_flight_batches (check h) P = in_flight_batches h P) \<and>
     (\<not> is_active h P \<and> pending_list h P \<noteq> [] \<longrightarrow>
        batches (check h) P = batches h P @ [pending_list h P] \<and>
        is_active (check h) P = (P \<in> set (projects h)) \<and>
        in_flight_batches (check h) P = (if P \<in> set (projects h) then [pending_list h P] else []))"
proof -
  have inv: "handler_inv (run_events evs)" by (rule handler_inv_run_events)
  then have fl: "flights_ok (run_events evs)" by (simp add: handler_inv_def)
  have e: "in_flight_batches (run_events evs) P = []" if "\<not> is_active (run_events evs) P"
    using that active_iff_in_flight[OF fl, of P] by (simp add: in_flight_batches_def)
  show ?thesis
    unfolding Let_def
    using in_flight_le_one[OF fl, of P] active_iff_in_flight[OF fl, of P]
      check_effect[OF inv, of P] e
    by (auto simp add: flushable_def)
qed

theorem one_flush_in_flight_witness:
  "is_active (run_events example_events_in_flight) ''try'' \<and>
   length (in_flight (run_events example_events_in_flight) ''try'') \<le> 1 \<and>
   in_flight (run_events example_events_in_flight) ''try'' \<noteq> [] \<and>
   batches (check (run_events example_events_in_flight)) ''try'' =
     batches (run_events example_events_in_flight) ''try'' \<and>
   pending_list (check (run_events example_events_in_flight)) ''try'' =
     pending_list (run_events example_events_in_flight) ''try'' \<and>
   \<not> is_active (run_events example_events) ''mozilla-central'' \<and>
   pending_list (run_events example_events) ''mozilla-central'' \<noteq> [] \<and>
   ''mozilla-central'' \<notin> set (projects (run_events example_events)) \<and>
   in_flight_batches (check (run_events example_events)) ''mozilla-central'' = [] \<and>
   in_flight_batches (check (run_events example_events)) ''try'' =
     [pending_list (run_events example_events) ''try'']"
proof -
  have a: "is_active (run_events example_events_in_flight) ''try''" by code_simp
  have b: "\<not> is_active (run_events example_events) ''mozilla-central'' \<and>
     pending_list (run_events example_events) ''mozilla-central'' \<noteq> [] \<and>
     ''mozilla-central'' \<notin> set (projects (run_events example_events))" by code_simp
  have c: "\<not> is_active (run_events example_events) ''try'' \<and>
     pending_list (run_events example_events) ''try'' \<noteq> [] \<and>
     ''try'' \<in> set (projects (run_events example_events))" by code_simp
  show ?thesis
    using one_flush_in_flight[of example_events_in_flight "''try''"] one_flush_in_flight[of example_events "''mozilla-central''"]
      one_flush_in_flight[of example_events "''try''"] a b c
    by (simp add: Let_def)
qed

text \<open>
  Claim C3 does not hold as stated: \<^verbatim>\<open>handleTaskPending\<close> awaits \<^verbatim>\<open>handleTaskRerun\<close>, which
  awaits the promise of its push. For the pending event of run 1, created by a rerun, whose
  first flush fails with "Service Unavailable", the handler ends with that error after one
  record: the record of run 1 is never handed to \<^verbatim>\<open>addPush\<close>. The last part shows where the
  rejection comes from: the promise that \<^verbatim>\<open>addPush\<close> returned for the first record is the
  one that the tick extracts and that \<^verbatim>\<open>tryPush\<close> rejects when \<^verbatim>\<open>postJobs\<close> fails.
\<close>

theorem rerun_flush_failure_counterexample:
  "payload_runId example_payload_rerun = 1 \<and>
   nth_opt (status_runs example_payload_rerun) 1 = Some example_run1 \<and>
   reasonCreated example_run1 = ''rerun'' \<and>
   snd (perform (handleTaskPending example_collaborators example_pushInfo example_task
                   example_payload_rerun) [Inl (Error ''Service Unavailable'')])
     = Threw (Error ''Service Unavailable'') \<and>
   length (contributed (handleTaskPending example_collaborators example_pushInfo example_task
                          example_payload_rerun) [Inl (Error ''Service Unavailable'')]) = 1 \<and>
   promises
     (tryPush_resume 0 (Inl (Error ''Service Unavailable''))
        (check (snd (addPush
           (hd (contributed (handleTaskPending example_collaborators example_pushInfo example_task
                               example_payload_rerun) []))
           (getProject ''try'' new_handler))))) !
     fst (addPush
           (hd (contributed (handleTaskPending example_collaborators example_pushInfo example_task
                               example_payload_rerun) []))
           (getProject ''try'' new_handler))
     = Rejected (Error ''Service Unavailable'')"
  by code_simp

text \<open>
  Claim C3, amended. Take a pending event whose runs normalise. When the run was created by
  \<^verbatim>\<open>rerun\<close> or \<^verbatim>\<open>retry\<close> and its index is not zero, the handler first contributes the
  record of the preceding run with state \<^verbatim>\<open>completed\<close>, result \<^verbatim>\<open>retry\<close> and one log
  reference, named \<^verbatim>\<open>builds-4h\<close>, whose url is the one the queue builds for the artifact
  \<^verbatim>\<open>public/logs/live_backing.log\<close> of the preceding run; once the flush of that record has
  succeeded it contributes the record of the current run, with the state and result of that
  run, two records in all; when that flush fails the handler ends with the error of the
  flush after the first record. For every other pending event exactly the record of the
  current run is contributed.
\<close>

theorem pending_event_records:
  assumes "nth_opt (status_runs pl) (payload_runId pl) = Some r"
    and "jobFromTask (lib c) (status_taskId pl) t r = Inr j"
  shows "(payload_runId pl \<noteq> 0 \<and> (reasonCreated r = ''rerun'' \<or> reasonCreated r = ''retry'') \<longrightarrow>
           (\<forall>r0 j0. nth_opt (status_runs pl) (payload_runId pl - 1) = Some r0 \<and>
               jobFromTask (lib c) (status_taskId pl) t r0 = Inr j0 \<longrightarrow>
              (\<forall>res. contributed (handleTaskPending c pushInfo t pl) (Inr res # outcomes) =
                 [make_push pushInfo
                    (j0\<lparr>job_state := Some ''completed'', result := Some ''retry'',
                        log_references :=
                          Some [\<lparr>log_name = ''builds-4h'',
                                 log_url = queue_buildUrl c (status_taskId pl) (runId r0)
                                             ''public/logs/live_backing.log''\<rparr>]\<rparr>),
                  make_push pushInfo
                    (j\<lparr>job_state := Some (stateFromRun r), result := Some (resultFromRun r)\<rparr>)]) \<and>
              (\<forall>e. perform (handleTaskPending c pushInfo t pl) (Inl e # outcomes) =
                 ([make_push pushInfo
                    (j0\<lparr>job_state := Some ''completed'', result := Some ''retry'',
                        log_references :=
                          Some [\<lparr>log_name = ''builds-4h'',
                                 log_url = queue_buildUrl c (status_taskId pl) (runId r0)
                                             ''public/logs/live_backing.log''\<rparr>]\<rparr>)],
                  Threw e)))) \<and>
         (\<not> (payload_runId pl \<noteq> 0 \<and> (reasonCreated r = ''rerun'' \<or> reasonCreated r = ''retry'')) \<longrightarrow>
            contributed (handleTaskPending c pushInfo t pl) outcomes =
              [make_push pushInfo
                 (j\<lparr>job_state := Some (stateFromRun r), result := Some (resultFromRun r)\<rparr>)])"
proof -
  show ?thesis
    using assms
    by (auto simp add: handleTaskPending_def handleTaskRerun_eq contributed_simps contributed_one
        createLogReferences_def)
qed

theorem pending_event_records_witness:
  "contributed (handleTaskPending example_collaborators example_pushInfo example_task
                  example_payload_rerun) [Inr ''ok''] =
     [\<lparr>push_revision_hash = JStr ''abc123'', push_revision = JUndefined, project = ''try'',
       job = example_job_abc ''0'' (JStr ''worker-1'') (Some 1) (Some 61)
               (Some ''completed'') (Some ''retry'')
               (Some [\<lparr>log_name = ''builds-4h'',
                       log_url = ''https://queue.example/task/abc/runs/0/artifacts/public/logs/live_backing.log''\<rparr>])\<rparr>,
      \<lparr>push_revision_hash = JStr ''abc123'', push_revision = JUndefined, project = ''try'',
       job = example_job_abc ''1'' JUndefined None None (Some ''pending'') (Some ''unknown'') None\<rparr>] \<and>
   perform (handleTaskPending example_collaborators example_pushInfo example_task
              example_payload_rerun) [Inl (Error ''Service Unavailable'')] =
     ([\<lparr>push_revision_hash = JStr ''abc123'', push_revision = JUndefined, project = ''try'',
        job = example_job_abc ''0'' (JStr ''worker-1'') (Some 1) (Some 61)
                (Some ''completed'') (Some ''retry'')
                (Some [\<lparr>log_name = ''builds-4h'',
                        log_url = ''https://queue.example/task/abc/runs/0/artifacts/public/logs/live_backing.log''\<rparr>])\<rparr>],
      Threw (Error ''Service Unavailable'')) \<and>
   contributed (handleTaskPending example_collaborators example_pushInfo example_task
                  example_payload_pending) [] =
     [\<lparr>push_revision_hash = JStr ''abc123'', push_revision = JUndefined, project = ''try'',
       job = example_job_abc ''0'' JUndefined None None (Some ''pending'') (Some ''unknown'') None\<rparr>]"
proof -
  have j0: "jobFromTask example_library ''abc'' example_task example_run0 =
      Inr (example_job_abc ''0'' (JStr ''worker-1'') (Some 1) (Some 61) None None None)"
    by code_simp
  have j1: "jobFromTask example_library ''abc'' example_task example_run1 =
      Inr (example_job_abc ''1'' JUndefined None None None None None)"
    by code_simp
  have j2: "jobFromTask example_library ''abc'' example_task
        (example_run1\<lparr>runId := 0, reasonCreated := ''scheduled''\<rparr>) =
      Inr (example_job_abc ''0'' JUndefined None None None None None)"
    by code_simp
  have r: "nth_opt (status_runs example_payload_rerun) (payload_runId example_payload_rerun)
      = Some example_run1"
    by (simp add: example_payload_rerun_def nth_opt_def)
  have r0: "nth_opt (status_runs example_payload_rerun) (payload_runId example_payload_rerun - 1)
      = Some example_run0"
    by (simp add: example_payload_rerun_def nth_opt_def)
  have r2: "nth_opt (status_runs example_payload_pending) (payload_runId example_payload_pending)
      = Some (example_run1\<lparr>runId := 0, reasonCreated := ''scheduled''\<rparr>)"
    by (simp add: example_payload_pending_def nth_opt_def)
  have c: "lib example_collaborators = example_library"
    "status_taskId example_payload_rerun = ''abc''"
    "status_taskId example_payload_pending = ''abc''"
    by (simp_all add: example_collaborators_def example_payload_rerun_def example_payload_pending_def)
  have d: "payload_runId example_payload_rerun \<noteq> 0" "reasonCreated example_run1 = ''rerun''"
    "payload_runId example_payload_pending = 0"
    by (simp_all add: example_payload_rerun_def example_run1_def example_payload_pending_def)
  note A = pending_event_records[of example_payload_rerun example_run1 example_collaborators example_task
      _ example_pushInfo "[]", unfolded c, OF r j1]
  note B = pending_event_records[of example_payload_pending _ example_collaborators example_task
      _ example_pushInfo "[]", unfolded c, OF r2 j2]
  from A r0 j0 d have 1: "contributed (handleTaskPending example_collaborators example_pushInfo
        example_task example_payload_rerun) [Inr ''ok''] =
       [make_push example_pushInfo
          ((example_job_abc ''0'' (JStr ''worker-1'') (Some 1) (Some 61) None None None)
             \<lparr>job_state := Some ''completed'', result := Some ''retry'',
              log_references :=
                Some [\<lparr>log_name = ''builds-4h'',
                       log_url = queue_buildUrl example_collaborators ''abc'' (runId example_run0)
                                   ''public/logs/live_backing.log''\<rparr>]\<rparr>),
        make_push example_pushInfo
          ((example_job_abc ''1'' JUndefined None None None None None)
             \<lparr>job_state := Some (stateFromRun example_run1),
              result := Some (resultFromRun example_run1)\<rparr>)]"
    by blast
  from A r0 j0 d have 2: "perform (handleTaskPending example_collaborators example_pushInfo
        example_task example_payload_rerun) [Inl (Error ''Service Unavailable'')] =
       ([make_push example_pushInfo
          ((example_job_abc ''0'' (JStr ''worker-1'') (Some 1) (Some 61) None None None)
             \<lparr>job_state := Some ''completed'', result := Some ''retry'',
              log_references :=
                Some [\<lparr>log_name = ''builds-4h'',
                       log_url = queue_buildUrl example_collaborators ''abc'' (runId example_run0)
                                   ''public/logs/live_backing.log''\<rparr>]\<rparr>)],
        Threw (Error ''Service Unavailable''))"
    by blast
  from B d have 3: "contributed (handleTaskPending example_collaborators example_pushInfo
        example_task example_payload_pending) [] =
       [make_push example_pushInfo
          ((example_job_abc ''0'' JUndefined None None None None None)
             \<lparr>job_state := Some (stateFromRun (example_run1\<lparr>runId := 0, reasonCreated := ''scheduled''\<rparr>)),
              result := Some (resultFromRun (example_run1\<lparr>runId := 0, reasonCreated := ''scheduled''\<rparr>))\<rparr>)]"
    by blast
  have e1: "make_push example_pushInfo
          ((example_job_abc ''0'' (JStr ''worker-1'') (Some 1) (Some 61) None None None)
             \<lparr>job_state := Some ''completed'', result := Some ''retry'',
              log_references :=
                Some [\<lparr>log_name = ''builds-4h'',
                       log_url = queue_buildUrl example_collaborators ''abc'' (runId example_run0)
                                   ''public/logs/live_backing.log''\<rparr>]\<rparr>) =
     \<lparr>push_revision_hash = JStr ''abc123'', push_revision = JUndefined, project = ''try'',
       job = example_job_abc ''0'' (JStr ''worker-1'') (Some 1) (Some 61)
               (Some ''completed'') (Some ''retry'')
               (Some [\<lparr>log_name = ''builds-4h'',
                       log_url = ''https://queue.example/task/abc/runs/0/artifacts/public/logs/live_backing.log''\<rparr>])\<rparr>"
    by code_simp
  have e2: "make_push example_pushInfo
          ((example_job_abc ''1'' JUndefined None None None None None)
             \<lparr>job_state := Some (stateFromRun example_run1),
              result := Some (resultFromRun example_run1)\<rparr>) =
      \<lparr>push_revision_hash = JStr ''abc123'', push_revision = JUndefined, project = ''try'',
       job = example_job_abc ''1'' JUndefined None None (Some ''pending'') (Some ''unknown'') None\<rparr>"
    by code_simp
  have e3: "make_push example_pushInfo
          ((example_job_abc ''0'' JUndefined None None None None None)
             \<lparr>job_state := Some (stateFromRun (example_run1\<lparr>runId := 0, reasonCreated := ''scheduled''\<rparr>)),
              result := Some (resultFromRun (example_run1\<lparr>runId := 0, reasonCreated := ''scheduled''\<rparr>))\<rparr>) =
      \<lparr>push_revision_hash = JStr ''abc123'', push_revision = JUndefined, project = ''try'',
       job = example_job_abc ''0'' JUndefined None None (Some ''pending'') (Some ''unknown'') None\<rparr>"
    by code_simp
  show ?thesis
    unfolding 1 2 3 e1 e2 e3 by simp
qed

text \<open>
  Claim C4. The state of the job is \<^verbatim>\<open>completed\<close> when the state of the run is \<^verbatim>\<open>exception\<close>
  or \<^verbatim>\<open>failed\<close>, and the state of the run otherwise. The result is \<^verbatim>\<open>success\<close> for a
  \<^verbatim>\<open>completed\<close> run, \<^verbatim>\<open>testfailed\<close> for a \<^verbatim>\<open>failed\<close> one, \<^verbatim>\<open>usercancel\<close> for an
  \<^verbatim>\<open>exception\<close> resolved as \<^verbatim>\<open>canceled\<close>, \<^verbatim>\<open>exception\<close> for any other \<^verbatim>\<open>exception\<close>, and
  \<^verbatim>\<open>unknown\<close> for every other state.
\<close>

theorem state_and_result_of_run:
  "(state r = ''exception'' \<or> state r = ''failed'' \<longrightarrow> stateFromRun r = ''completed'') \<and>
   (state r \<noteq> ''exception'' \<and> state r \<noteq> ''failed'' \<longrightarrow> stateFromRun r = state r) \<and>
   (state r = ''completed'' \<longrightarrow> resultFromRun r = ''success'') \<and>
   (state r = ''failed'' \<longrightarrow> resultFromRun r = ''testfailed'') \<and>
   (state r = ''exception'' \<and> reasonResolved r = Some ''canceled'' \<longrightarrow> resultFromRun r = ''usercancel'') \<and>
   (state r = ''exception'' \<and> reasonResolved r \<noteq> Some ''canceled'' \<longrightarrow> resultFromRun r = ''exception'') \<and>
   (state r \<noteq> ''completed'' \<and> state r \<noteq> ''failed'' \<and> state r \<noteq> ''exception'' \<longrightarrow>
      resultFromRun r = ''unknown'')"
  by (simp add: stateFromRun_def resultFromRun_def)

theorem state_and_result_of_run_witness:
  "stateFromRun example_run_canceled = ''completed'' \<and>
   resultFromRun example_run_canceled = ''usercancel'' \<and>
   stateFromRun example_run1 = ''pending'' \<and> resultFromRun example_run1 = ''unknown'' \<and>
   stateFromRun example_run0 = ''completed'' \<and> resultFromRun example_run0 = ''testfailed''"
  using state_and_result_of_run[of example_run_canceled] state_and_result_of_run[of example_run1] state_and_result_of_run[of example_run0]
  by (simp add: example_run_canceled_def example_run1_def example_run0_def)

text \<open>
  Claim C5. Take a failed event whose run normalises. When the task has the scheduler
  \<^verbatim>\<open>task-graph-scheduler\<close> and a task group, and the scheduler reports more reruns than the
  index of the run, the handler returns without contributing. When the task is outside that
  domain, or the request fails, or the reruns do not exceed the index of the run, the handler
  contributes exactly one record: the one with the state and result of the run and one log
  reference, named \<^verbatim>\<open>builds-4h\<close>, whose url is the one the queue builds for the artifact
  \<^verbatim>\<open>public/logs/live_backing.log\<close> of the run.
\<close>

theorem failed_event_records:
  assumes "nth_opt (status_runs pl) (payload_runId pl) = Some r"
    and "jobFromTask (lib c) (status_taskId pl) t r = Inr j"
  shows "(\<forall>g info. schedulerId t = ''task-graph-scheduler'' \<and> taskGroupId t = Some g \<and> g \<noteq> [] \<and>
            scheduler_inspectTask c g (status_taskId pl) = Inr info \<and>
            reruns info > int (payload_runId pl) \<longrightarrow>
            perform (handleTaskFailed c pushInfo t pl) outcomes = ([], Returned)) \<and>
         ((schedulerId t \<noteq> ''task-graph-scheduler'' \<or> taskGroupId t = None \<or> taskGroupId t = Some [] \<or>
           (\<exists>g e. taskGroupId t = Some g \<and> scheduler_inspectTask c g (status_taskId pl) = Inl e) \<or>
           (\<exists>g info. taskGroupId t = Some g \<and> scheduler_inspectTask c g (status_taskId pl) = Inr info \<and>
              reruns info \<le> int (payload_runId pl))) \<longrightarrow>
            contributed (handleTaskFailed c pushInfo t pl) outcomes =
              [make_push pushInfo
                 (j\<lparr>job_state := Some (stateFromRun r), result := Some (resultFromRun r),
                    log_references :=
                      Some [\<lparr>log_name = ''builds-4h'',
                             log_url = queue_buildUrl c (status_taskId pl) (runId r)
                                         ''public/logs/live_backing.log''\<rparr>]\<rparr>)])"
  using assms
  by (auto simp add: handleTaskFailed_def contributed_one createLogReferences_def)

theorem failed_event_records_witness:
  "perform (handleTaskFailed example_collaborators example_pushInfo example_task
              example_payload_failed) [] = ([], Returned) \<and>
   contributed (handleTaskFailed
                  (example_collaborators\<lparr>scheduler_inspectTask :=
                      (\<lambda>taskGroupId taskId. Inl (Error ''404''))\<rparr>)
                  example_pushInfo example_task example_payload_failed) [] =
     [\<lparr>push_revision_hash = JStr ''abc123'', push_revision = JUndefined, project = ''try'',
       job = example_job_abc ''1'' (JStr ''worker-1'') (Some 1) (Some 61)
               (Some ''completed'') (Some ''testfailed'')
               (Some [\<lparr>log_name = ''builds-4h'',
                       log_url = ''https://queue.example/task/abc/runs/1/artifacts/public/logs/live_backing.log''\<rparr>])\<rparr>]"
proof -
  define c' where "c' = example_collaborators\<lparr>scheduler_inspectTask :=
                           (\<lambda>taskGroupId taskId. Inl (Error ''404''))\<rparr>"
  have j: "jobFromTask example_library ''abc'' example_task (example_run0\<lparr>runId := 1\<rparr>) =
      Inr (example_job_abc ''1'' (JStr ''worker-1'') (Some 1) (Some 61) None None None)"
    by code_simp
  have r: "nth_opt (status_runs example_payload_failed) (payload_runId example_payload_failed)
      = Some (example_run0\<lparr>runId := 1\<rparr>)"
    by (simp add: example_payload_failed_def nth_opt_def)
  have c: "lib example_collaborators = example_library"
    "lib c' = example_library"
    "queue_buildUrl c' = queue_buildUrl example_collaborators"
    "status_taskId example_payload_failed = ''abc''"
    by (simp_all add: example_collaborators_def example_payload_failed_def c'_def)
  have d: "schedulerId example_task = ''task-graph-scheduler''"
    "taskGroupId example_task = Some ''group-1''"
    "scheduler_inspectTask example_collaborators ''group-1'' ''abc'' = Inr \<lparr>reruns = 2\<rparr>"
    "scheduler_inspectTask c' ''group-1'' ''abc'' = Inl (Error ''404'')"
    "reruns \<lparr>reruns = 2\<rparr> > int (payload_runId example_payload_failed)"
    by (simp_all add: example_task_def example_collaborators_def example_payload_failed_def c'_def)
  note A = failed_event_records[of example_payload_failed _ example_collaborators example_task _ example_pushInfo "[]",
      unfolded c, OF r j]
  note B = failed_event_records[of example_payload_failed _ c' example_task _ example_pushInfo "[]",
      unfolded c, OF r j]
  from A d have 1: "perform (handleTaskFailed example_collaborators example_pushInfo example_task
              example_payload_failed) [] = ([], Returned)"
    by (simp add: c)
  from B d have 2: "contributed (handleTaskFailed c' example_pushInfo example_task example_payload_failed) [] =
     [make_push example_pushInfo
        ((example_job_abc ''1'' (JStr ''worker-1'') (Some 1) (Some 61) None None None)
           \<lparr>job_state := Some (stateFromRun (example_run0\<lparr>runId := 1\<rparr>)),
            result := Some (resultFromRun (example_run0\<lparr>runId := 1\<rparr>)),
            log_references :=
              Some [\<lparr>log_name = ''builds-4h'',
                     log_url = queue_buildUrl example_collaborators ''abc'' (runId (example_run0\<lparr>runId := 1\<rparr>))
                                 ''public/logs/live_backing.log''\<rparr>]\<rparr>)]"
    by blast
  have e: "make_push example_pushInfo
        ((example_job_abc ''1'' (JStr ''worker-1'') (Some 1) (Some 61) None None None)
           \<lparr>job_state := Some (stateFromRun (example_run0\<lparr>runId := 1\<rparr>)),
            result := Some (resultFromRun (example_run0\<lparr>runId := 1\<rparr>)),
            log_references :=
              Some [\<lparr>log_name = ''builds-4h'',
                     log_url = queue_buildUrl example_collaborators ''abc'' (runId (example_run0\<lparr>runId := 1\<rparr>))
                                 ''public/logs/live_backing.log''\<rparr>]\<rparr>) =
     \<lparr>push_revision_hash = JStr ''abc123'', push_revision = JUndefined, project = ''try'',
       job = example_job_abc ''1'' (JStr ''worker-1'') (Some 1) (Some 61)
               (Some ''completed'') (Some ''testfailed'')
               (Some [\<lparr>log_name = ''builds-4h'',
                       log_url = ''https://queue.example/task/abc/runs/1/artifacts/public/logs/live_backing.log''\<rparr>])\<rparr>"
    by code_simp
  show ?thesis using 1 2 unfolding c'_def e by simp
qed

text \<open>
  Claim C6. For an exception event, when the run was created for the reason \<^verbatim>\<open>exception\<close>
  the handler returns without contributing; otherwise, the run normalising, it contributes
  exactly one record, with the state and result of the run.
\<close>

theorem exception_event_records:
  assumes "nth_opt (status_runs pl) (payload_runId pl) = Some r"
  shows "(reasonCreated r = ''exception'' \<longrightarrow>
            perform (handleTaskException c pushInfo t pl) outcomes = ([], Returned)) \<and>
         (reasonCreated r \<noteq> ''exception'' \<longrightarrow>
            (\<forall>j. jobFromTask (lib c) (status_taskId pl) t r = Inr j \<longrightarrow>
               contributed (handleTaskException c pushInfo t pl) outcomes =
                 [make_push pushInfo
                    (j\<lparr>job_state := Some (stateFromRun r), result := Some (resultFromRun r)\<rparr>)]))"
  using assms
  by (simp add: handleTaskException_def shouldReportExceptionRun_def contributed_one)

theorem exception_event_records_witness:
  "perform (handleTaskException example_collaborators example_pushInfo example_task
              example_payload_exception) [] = ([], Returned) \<and>
   contributed (handleTaskException example_collaborators example_pushInfo example_task
                  example_payload_shutdown) [] =
     [\<lparr>push_revision_hash = JStr ''abc123'', push_revision = JUndefined, project = ''try'',
       job = example_job_abc ''0'' (JStr ''worker-1'') (Some 1) (Some 61)
               (Some ''completed'') (Some ''exception'') None\<rparr>]"
proof -
  have r: "nth_opt (status_runs example_payload_exception) (payload_runId example_payload_exception)
      = Some example_run_canceled"
    by (simp add: example_payload_exception_def nth_opt_def)
  have r': "nth_opt (status_runs example_payload_shutdown) (payload_runId example_payload_shutdown)
      = Some example_run_shutdown"
    by (simp add: example_payload_shutdown_def nth_opt_def)
  have j: "jobFromTask example_library ''abc'' example_task example_run_shutdown =
      Inr (example_job_abc ''0'' (JStr ''worker-1'') (Some 1) (Some 61) None None None)"
    by code_simp
  have c: "lib example_collaborators = example_library"
    "status_taskId example_payload_shutdown = ''abc''"
    by (simp_all add: example_collaborators_def example_payload_shutdown_def)
  have d: "reasonCreated example_run_canceled = ''exception''"
    "reasonCreated example_run_shutdown \<noteq> ''exception''"
    by (simp_all add: example_run_canceled_def example_run_shutdown_def)
  note A = exception_event_records[OF r, of example_collaborators example_pushInfo example_task "[]"]
  note B = exception_event_records[OF r', of example_collaborators example_pushInfo example_task "[]",
      unfolded c]
  from A d have 1: "perform (handleTaskException example_collaborators example_pushInfo example_task
              example_payload_exception) [] = ([], Returned)"
    by blast
  from B d j have 2: "contributed (handleTaskException example_collaborators example_pushInfo example_task
                  example_payload_shutdown) [] =
     [make_push example_pushInfo
        ((example_job_abc ''0'' (JStr ''worker-1'') (Some 1) (Some 61) None None None)
           \<lparr>job_state := Some (stateFromRun example_run_shutdown),
            result := Some (resultFromRun example_run_shutdown)\<rparr>)]"
    by blast
  have e: "make_push example_pushInfo
        ((example_job_abc ''0'' (JStr ''worker-1'') (Some 1) (Some 61) None None None)
           \<lparr>job_state := Some (stateFromRun example_run_shutdown),
            result := Some (resultFromRun example_run_shutdown)\<rparr>) =
     \<lparr>push_revision_hash = JStr ''abc123'', push_revision = JUndefined, project = ''try'',
       job = example_job_abc ''0'' (JStr ''worker-1'') (Some 1) (Some 61)
               (Some ''completed'') (Some ''exception'') None\<rparr>"
    by code_simp
  show ?thesis using 1 2 unfolding e by simp
qed

text \<open>
  Claim C7. In every state the handler reaches, when \<^verbatim>\<open>postJobs\<close> fails with \<open>err\<close> for a flush
  in flight: the promise extracted for that batch is rejected with \<open>err\<close>, the flag of the
  project is cleared and the project has no flush in flight, and the pending list, the
  batches and all arrays are as before, so the records of the failed batch are not queued
  again. A later \<^verbatim>\<open>addPush\<close> for the project appends to its pending list and the next tick
  flushes that list. The same holds for the flush that fails at once because
  \<^verbatim>\<open>this.projects\<close> lacks the project: the promise is rejected, the flag is clear and the new
  pending list is empty.
\<close>

theorem flush_failure:
  "let h = run_events evs in
     (\<forall>i < length (running h).
        let f = running h ! i; P = flush_project f; h' = tryPush_resume i (Inl err) h in
          promises h' ! flush_promise f = Rejected err \<and>
          \<not> is_active h' P \<and> in_flight h' P = [] \<and>
          pending_list h' P = pending_list h P \<and> batches h' P = batches h P \<and>
          arrays h' = arrays h \<and>
          (\<forall>x. project x = P \<longrightarrow>
             pending_list (snd (addPush x h')) P = pending_list h P @ [x] \<and>
             batches (check (snd (addPush x h'))) P = batches h P @ [pending_list h P @ [x] ] \<and>
             pending_list (check (snd (addPush x h'))) P = [])) \<and>
     (\<forall>n p. map_of (pendingPushes h) n = Some p \<and> n \<notin> set (projects h) \<longrightarrow>
        promises (tryPush n p h) ! promise p =
          Rejected (TypeError ''Cannot read property postJobs of undefined'') \<and>
        \<not> is_active (tryPush n p h) n \<and> in_flight (tryPush n p h) n = in_flight h n \<and>
        pending_list (tryPush n p h) n = [])"
proof -
  define h where "h = run_events evs"
  have inv: "handler_inv h" unfolding h_def by (rule handler_inv_run_events)
  then have fl: "flights_ok h" and st: "stores_ok h" by (simp_all add: handler_inv_def)
  have part1: "promises h' ! flush_promise f = Rejected err \<and>
          \<not> is_active h' P \<and> in_flight h' P = [] \<and>
          pending_list h' P = pending_list h P \<and> batches h' P = batches h P \<and>
          arrays h' = arrays h \<and>
          (\<forall>x. project x = P \<longrightarrow>
             pending_list (snd (addPush x h')) P = pending_list h P @ [x] \<and>
             batches (check (snd (addPush x h'))) P = batches h P @ [pending_list h P @ [x] ] \<and>
             pending_list (check (snd (addPush x h'))) P = [])"
    if i: "i < length (running h)" and f: "f = running h ! i" and P: "P = flush_project f"
      and h': "h' = tryPush_resume i (Inl err) h" for i f P h'
  proof -
    have "f \<in> set (running h)" using i f by simp
    then have "f \<in> set (flush_log h)" using flights_okD(2)[OF fl] by blast
    then have b: "flush_promise f < length (promises h)" by (rule stores_okD(6)[OF st])
    have inv': "handler_inv h'"
      unfolding h' using inv
      by (simp add: handler_inv_def stores_ok_tryPush_resume flights_ok_tryPush_resume)
    have r: "promises h' ! flush_promise f = Rejected err"
      unfolding h' f using resume_promise[OF i b[unfolded f], of "Inl err"] by simp
    have a: "\<not> is_active h' P" unfolding h' P f using resume_view(6)[OF i] by simp
    have fli: "in_flight h' P = []" unfolding h' P f by (rule resume_in_flight[OF fl i])
    have pl: "pending_list h' P = pending_list h P" "batches h' P = batches h P" "arrays h' = arrays h"
      unfolding h' by (simp_all add: resume_view)
    have after: "pending_list (snd (addPush x h')) P = pending_list h P @ [x] \<and>
             batches (check (snd (addPush x h'))) P = batches h P @ [pending_list h P @ [x] ] \<and>
             pending_list (check (snd (addPush x h'))) P = []" if x: "project x = P" for x
    proof -
      have inv'': "handler_inv (snd (addPush x h'))"
        using inv' by (simp add: handler_inv_def stores_ok_addPush flights_ok_addPush)
      have 1: "pending_list (snd (addPush x h')) P = pending_list h P @ [x]"
        using addPush_view(1)[OF inv', of x P] x pl by simp
      have 2: "\<not> is_active (snd (addPush x h')) P"
        using addPush_view(3)[OF inv', of x P] a by simp
      have 3: "batches (snd (addPush x h')) P = batches h P"
        using addPush_view(2)[OF inv', of x P] pl by simp
      have "flushable (snd (addPush x h')) P" using 1 2 by (simp add: flushable_def)
      from check_effect(1)[OF inv'' this] 1 3 show ?thesis by simp
    qed
    show ?thesis using r a fli pl after by blast
  qed
  have part2: "promises (tryPush n p h) ! promise p =
          Rejected (TypeError ''Cannot read property postJobs of undefined'') \<and>
        \<not> is_active (tryPush n p h) n \<and> in_flight (tryPush n p h) n = in_flight h n \<and>
        pending_list (tryPush n p h) n = []"
    if "map_of (pendingPushes h) n = Some p" "n \<notin> set (projects h)" for n p
    using that tryPush_missing_project[OF st that] tryPush_view[OF inv that(1), of n]
    by simp
  show ?thesis
    unfolding Let_def h_def[symmetric]
    using part1 part2 by blast
qed

theorem flush_failure_witness:
  "0 < length (running (run_events example_events_in_flight)) \<and>
   promises (tryPush_resume 0 (Inl (Error ''Service Unavailable'')) (run_events example_events_in_flight)) ! 0
     = Rejected (Error ''Service Unavailable'') \<and>
   \<not> is_active (tryPush_resume 0 (Inl (Error ''Service Unavailable''))
                  (run_events example_events_in_flight)) ''try'' \<and>
   pending_list (tryPush_resume 0 (Inl (Error ''Service Unavailable''))
                  (run_events example_events_in_flight)) ''try'' = [example_push ''try'' ''d/0''] \<and>
   batches (check (snd (addPush (example_push ''try'' ''e/0'')
              (tryPush_resume 0 (Inl (Error ''Service Unavailable''))
                 (run_events example_events_in_flight))))) ''try'' =
     batches (run_events example_events_in_flight) ''try'' @
       [ [example_push ''try'' ''d/0'', example_push ''try'' ''e/0''] ]"
proof -
  have a: "0 < length (running (run_events example_events_in_flight))" by code_simp
  have b: "running (run_events example_events_in_flight) ! 0 =
       \<lparr>flush_project = ''try'', flush_pushes = 0, flush_promise = 0\<rparr>" by code_simp
  have c: "pending_list (run_events example_events_in_flight) ''try'' = [example_push ''try'' ''d/0'']"
    by code_simp
  have d: "project (example_push ''try'' ''e/0'') = ''try''" by (simp add: example_push_def)
  show ?thesis
    using flush_failure[of example_events_in_flight "Error ''Service Unavailable''", unfolded Let_def,
        THEN conjunct1, rule_format, OF a]
      a b c d
    by simp
qed



text \<open>
  Claim C9 does not hold as stated: for a message on the task-pending exchange none of whose
  routes starts with the prefix, \<^verbatim>\<open>handleTaskEvent\<close> throws
  "Unexpected message (no route) on ..." instead of dropping the event silently.
\<close>

theorem no_route_raises_counterexample:
  "EVENT_MAP example_collaborators (exchange example_message_no_route) = Some ''pending'' \<and>
   map first_segment (routes example_message_no_route) = [''index'', ''notify''] \<and>
   perform (handleTaskEvent example_collaborators ''tc-treeherder'' example_message_no_route) []
     = ([], Threw (Error ''Unexpected message (no route) on exchange/taskcluster-queue/v1/task-pending''))"
  by code_simp

text \<open>
  Claim C9, amended. For a message on a known exchange none of whose routes starts with the
  prefix, \<^verbatim>\<open>handleTaskEvent\<close> ends with the error "Unexpected message (no route) on" that
  exchange, and contributes nothing. For a message whose route is found but for which neither
  the task nor the parsed route gives a revision, and the parsed route gives no revision
  hash, nothing is contributed.
\<close>

theorem unroutable_event:
  "(EVENT_MAP c (exchange msg) \<noteq> None \<and>
    (\<forall>route \<in> set (routes msg). first_segment route \<noteq> prefix) \<longrightarrow>
      perform (handleTaskEvent c prefix msg) outcomes =
        ([], Threw (Error (''Unexpected message (no route) on '' @ exchange msg)))) \<and>
   (\<forall>route t. find (\<lambda>route. first_segment route = prefix) (routes msg) = Some route \<and>
       queue_task c (status_taskId (message_payload msg)) = Inr t \<and>
       \<not> truthy (case extra_treeherder t of None \<Rightarrow> JUndefined | Some th \<Rightarrow> revision th) \<and>
       \<not> truthy (route_revision (parseRoute c route)) \<and>
       \<not> truthy (route_revisionHash (parseRoute c route)) \<longrightarrow>
      contributed (handleTaskEvent c prefix msg) outcomes = [])"
proof -
  have a: "find (\<lambda>route. first_segment route = prefix) (routes msg) = None"
    if "\<forall>route \<in> set (routes msg). first_segment route \<noteq> prefix"
    using that by (simp add: find_None_iff)
  show ?thesis
    using a
    by (auto simp add: handleTaskEvent_def contributed_simps Let_def split: option.splits)
qed

theorem unroutable_event_witness:
  "perform (handleTaskEvent example_collaborators ''tc-treeherder'' example_message_no_route) []
     = ([], Threw (Error ''Unexpected message (no route) on exchange/taskcluster-queue/v1/task-pending'')) \<and>
   contributed (handleTaskEvent example_collaborators ''tc-treeherder'' example_message_no_revision) []
     = []"
proof -
  note A = unroutable_event[of example_collaborators example_message_no_route "''tc-treeherder''" "[]"]
  note B = unroutable_event[of example_collaborators example_message_no_revision "''tc-treeherder''" "[]"]
  have a: "EVENT_MAP example_collaborators (exchange example_message_no_route) \<noteq> None"
    "\<forall>route \<in> set (routes example_message_no_route). first_segment route \<noteq> ''tc-treeherder''"
    "exchange example_message_no_route = ''exchange/taskcluster-queue/v1/task-pending''"
    by code_simp+
  have b: "find (\<lambda>route. first_segment route = ''tc-treeherder'') (routes example_message_no_revision)
       = Some ''tc-treeherder.try''"
    "queue_task example_collaborators (status_taskId (message_payload example_message_no_revision))
       = Inr example_task"
    "\<not> truthy (case extra_treeherder example_task of None \<Rightarrow> JUndefined | Some th \<Rightarrow> revision th)"
    "\<not> truthy (route_revision (parseRoute example_collaborators ''tc-treeherder.try''))"
    "\<not> truthy (route_revisionHash (parseRoute example_collaborators ''tc-treeherder.try''))"
    by code_simp+
  from A a have 1: "perform (handleTaskEvent example_collaborators ''tc-treeherder'' example_message_no_route) []
     = ([], Threw (Error ''Unexpected message (no route) on exchange/taskcluster-queue/v1/task-pending''))"
    by simp
  from B b have 2: "contributed (handleTaskEvent example_collaborators ''tc-treeherder''
       example_message_no_revision) [] = []"
    by blast
  show ?thesis using 1 2 by simp
qed

text \<open>
  Claim C10 at the task whose \<^verbatim>\<open>extra.treeherder\<close> is \<^verbatim>\<open>{symbol: "B", tier: 0}\<close>: the
  validation accepts the number 0 for \<^verbatim>\<open>tier\<close>, \<^verbatim>\<open>if (config.tier)\<close> is false for it, and
  the job that \<^verbatim>\<open>jobFromTask\<close> returns has no \<^verbatim>\<open>tier\<close>; \<^verbatim>\<open>group_name\<close> and
  \<^verbatim>\<open>group_symbol\<close> are there with their defaults.
\<close>

theorem tier_zero_dropped:
  "case jobFromTask example_library ''abc'' example_task_tier0 example_run0 of
     Inl e \<Rightarrow> False
   | Inr j \<Rightarrow> job_tier j = None \<and> group_name j = Some (JStr ''unknown'') \<and>
              group_symbol j = Some (JStr ''?'')"
  by code_simp


end
